theory Spec2Isabelle
  imports
    Complex_Main
    "HOL-Library.Multiset"
    "HOL-Library.Char_ord"
    "HOL-Library.List_Lexorder"
    "HOL-Library.Product_Lexorder"
begin

section \<open>Telemetry dashboard backend: generator, store, sampler loop, query service\<close>

text \<open>
  The development embeds \<^verbatim>\<open>backend/continuous_data.py\<close>, \<^verbatim>\<open>backend/db.py\<close>,
  \<^verbatim>\<open>backend/models.py\<close> and \<^verbatim>\<open>backend/main.py\<close>.

  Conventions of the embedding.
  \<^item> A Python \<^verbatim>\<open>float\<close> is a \<^typ>\<open>real\<close>: sums are exact. The range properties below
    rest on \<open>max\<close> and \<open>min\<close> only.
  \<^item> A Python \<^verbatim>\<open>int\<close> (a unix timestamp) is an \<^typ>\<open>int\<close>.
  \<^item> The wall clock, the random generator and the failures of the database engine are
    inputs: every reading of \<^verbatim>\<open>time.time()\<close>, every outcome of \<^verbatim>\<open>random.choice\<close> and
    every engine fault is a parameter of the function that meets it.
  \<^item> The table \<^verbatim>\<open>metrics\<close> is the list of its rows in insertion order. The column
    \<^verbatim>\<open>id\<close> is left out: no statement of the program reads it.
  \<^item> \<^verbatim>\<open>print\<close> appends a line to a log held in the state.
\<close>

subsection \<open>Errors\<close>

datatype error =
    KeyError string
  | IndexError
  | UniqueConstraintFailed
  | OperationalError

text \<open>
  \<^verbatim>\<open>"UNIQUE constraint failed" in str(e)\<close>: the text of the engine's unique violation
  holds the phrase; the texts of its other errors, of a \<^verbatim>\<open>KeyError\<close> on a sensor or
  metric name and of an \<^verbatim>\<open>IndexError\<close> do not.
\<close>

fun unique_constraint_failed_in_str :: "error \<Rightarrow> bool" where
  "unique_constraint_failed_in_str UniqueConstraintFailed = True"
| "unique_constraint_failed_in_str _ = False"

subsection \<open>Configuration (continuous\_data.py, lines 23--39)\<close>

definition SENSORS :: "string list" where
  "SENSORS = [''THS No. 1'', ''THS No. 2'', ''THS No. 3'']"

definition TEMP_MIN :: real where "TEMP_MIN = 16.0"
definition TEMP_MAX :: real where "TEMP_MAX = 26.0"
definition HUMIDITY_MIN :: real where "HUMIDITY_MIN = 40.0"
definition HUMIDITY_MAX :: real where "HUMIDITY_MAX = 70.0"

type_synonym last_values = "string \<rightharpoonup> (string \<rightharpoonup> real)"

definition LAST_VALUES :: last_values where
  "LAST_VALUES =
     [''THS No. 1'' \<mapsto> [''temp'' \<mapsto> 21.0, ''humidity'' \<mapsto> 55.0],
      ''THS No. 2'' \<mapsto> [''temp'' \<mapsto> 22.0, ''humidity'' \<mapsto> 58.0],
      ''THS No. 3'' \<mapsto> [''temp'' \<mapsto> 20.5, ''humidity'' \<mapsto> 52.0]]"

subsection \<open>Value generator (continuous\_data.py, lines 42--58)\<close>

definition CHANGES :: "real list" where
  "CHANGES = [- 0.1, - 0.05, 0, 0.05, 0.1]"

text \<open>
  \<^verbatim>\<open>random.choice(seq)\<close> returns \<^verbatim>\<open>seq[i]\<close> for an index \<open>i\<close> below the length, and
  raises \<^verbatim>\<open>IndexError\<close> on an empty sequence. The draw is the natural number \<open>r\<close>,
  read modulo the length, so that every index can be drawn and no other.
\<close>

definition random_choice :: "nat \<Rightarrow> 'a list \<Rightarrow> error + 'a" where
  "random_choice r xs = (if xs = [] then Inl IndexError else Inr (xs ! (r mod length xs)))"

text \<open>
  The generator reads the module-level dictionary, and writes the new value back into
  it before it returns: the dictionary is passed in and returned. A missing key raises
  \<^verbatim>\<open>KeyError\<close> before anything is written.
\<close>

definition generate_random_walk_value ::
  "nat \<Rightarrow> string \<Rightarrow> string \<Rightarrow> last_values \<Rightarrow> error + (real \<times> last_values)" where
  "generate_random_walk_value r sensor_id metric_type lv =
     (case lv sensor_id of
        None \<Rightarrow> Inl (KeyError sensor_id)
      | Some d \<Rightarrow>
          (case d metric_type of
             None \<Rightarrow> Inl (KeyError metric_type)
           | Some last_value \<Rightarrow>
               (case random_choice r CHANGES of
                  Inl e \<Rightarrow> Inl e
                | Inr change \<Rightarrow>
                    (let new_value = last_value + change;
                         new_value =
                           (if metric_type = ''temp''
                            then max TEMP_MIN (min TEMP_MAX new_value)
                            else max HUMIDITY_MIN (min HUMIDITY_MAX new_value))
                     in Inr (new_value, lv(sensor_id \<mapsto> d(metric_type \<mapsto> new_value)))))))"

text \<open>The range a metric name is clamped to: the branch of lines 51--54.\<close>

definition range_min :: "string \<Rightarrow> real" where
  "range_min metric_type = (if metric_type = ''temp'' then TEMP_MIN else HUMIDITY_MIN)"

definition range_max :: "string \<Rightarrow> real" where
  "range_max metric_type = (if metric_type = ''temp'' then TEMP_MAX else HUMIDITY_MAX)"

text \<open>
  A sequence of walk steps on one entry of the dictionary: one call per draw, the values
  returned collected in order. The first error ends the sequence.
\<close>

fun walk :: "nat list \<Rightarrow> string \<Rightarrow> string \<Rightarrow> last_values \<Rightarrow> error + (real list \<times> last_values)" where
  "walk [] sensor_id metric_type lv = Inr ([], lv)"
| "walk (r # rs) sensor_id metric_type lv =
     (case generate_random_walk_value r sensor_id metric_type lv of
        Inl e \<Rightarrow> Inl e
      | Inr (v, lv') \<Rightarrow>
          (case walk rs sensor_id metric_type lv' of
             Inl e \<Rightarrow> Inl e
           | Inr (vs, lv'') \<Rightarrow> Inr (v # vs, lv'')))"

text \<open>Every value stored in the dictionary lies in the range of its metric name.\<close>

definition values_in_range :: "last_values \<Rightarrow> bool" where
  "values_in_range lv =
     (\<forall>s d m v. lv s = Some d \<longrightarrow> d m = Some v \<longrightarrow> range_min m \<le> v \<and> v \<le> range_max m)"

text \<open>The value stored for one sensor and metric name lies in the range of the name.\<close>

definition entry_in_range :: "last_values \<Rightarrow> string \<Rightarrow> string \<Rightarrow> bool" where
  "entry_in_range lv s m =
     (case lv s of
        None \<Rightarrow> False
      | Some d \<Rightarrow> (case d m of None \<Rightarrow> False | Some v \<Rightarrow> range_min m \<le> v \<and> v \<le> range_max m))"

text \<open>The dictionary holds a temperature and a humidity for each of the listed sensors.\<close>

definition has_entries :: "last_values \<Rightarrow> string list \<Rightarrow> bool" where
  "has_entries lv ss =
     list_all (\<lambda>s. case lv s of
                     None \<Rightarrow> False
                   | Some d \<Rightarrow> d ''temp'' \<noteq> None \<and> d ''humidity'' \<noteq> None) ss"

subsection \<open>The table (models.py, lines 8--17)\<close>

record reading =
  timestamp :: int
  sensor_id :: string
  temperature :: real
  humidity :: real

type_synonym metrics_table = "reading list"

definition same_key :: "reading \<Rightarrow> reading \<Rightarrow> bool" where
  "same_key a b = (timestamp a = timestamp b \<and> sensor_id a = sensor_id b)"

text \<open>
  \<^verbatim>\<open>INSERT INTO metrics (timestamp, sensor_id, temperature, humidity) VALUES (?, ?, ?, ?)\<close>
  under \<^verbatim>\<open>UNIQUE(timestamp, sensor_id)\<close>. The flag is the engine's fault for this
  statement (a locked or unwritable database file).
\<close>

definition execute_insert :: "bool \<Rightarrow> reading \<Rightarrow> metrics_table \<Rightarrow> error + metrics_table" where
  "execute_insert fault row tbl =
     (if fault then Inl OperationalError
      else if list_ex (same_key row) tbl then Inl UniqueConstraintFailed
      else Inr (tbl @ [row]))"

text \<open>The table holds a row with this timestamp and sensor: the key of the constraint.\<close>

definition key_stored :: "int \<Rightarrow> string \<Rightarrow> metrics_table \<Rightarrow> bool" where
  "key_stored ts s tbl = list_ex (\<lambda>r. timestamp r = ts \<and> sensor_id r = s) tbl"

text \<open>\<^verbatim>\<open>DELETE FROM metrics WHERE timestamp < ?\<close>, with \<^verbatim>\<open>cursor.rowcount\<close>.\<close>

definition execute_delete :: "int \<Rightarrow> metrics_table \<Rightarrow> metrics_table \<times> nat" where
  "execute_delete cutoff tbl =
     (filter (\<lambda>r. \<not> timestamp r < cutoff) tbl,
      length (filter (\<lambda>r. timestamp r < cutoff) tbl))"

text \<open>
  \<^verbatim>\<open>SELECT timestamp, sensor_id, temperature, humidity FROM metrics
  WHERE timestamp > ? ORDER BY sensor_id, timestamp ASC\<close>. Text is compared bytewise,
  a proper prefix first.
\<close>

definition execute_select :: "int \<Rightarrow> metrics_table \<Rightarrow> reading list" where
  "execute_select cutoff tbl =
     sort_key (\<lambda>r. (sensor_id r, timestamp r)) (filter (\<lambda>r. timestamp r > cutoff) tbl)"

subsection \<open>Sampler loop (continuous\_data.py, lines 61--127)\<close>

datatype log_line =
    Inserted_metrics
  | Error_inserting error
  | Cleaned_up nat
  | Error_cleaning error

record state =
  last_values :: last_values
  metrics :: metrics_table
  stdout :: "log_line list"

text \<open>What one tick takes from outside the program.\<close>

record env =
  time_insert :: int
  time_clean :: int
  draws :: "string \<Rightarrow> nat \<times> nat"
  insert_fault :: "string \<Rightarrow> bool"
  delete_fault :: bool

text \<open>
  The body of the \<^verbatim>\<open>for\<close> loop of lines 69--80, on the connection's uncommitted view
  of the table. An exception leaves the loop; what the generator wrote into the
  dictionary before stays written.
\<close>

fun insert_sensors ::
  "int \<Rightarrow> env \<Rightarrow> string list \<Rightarrow> last_values \<Rightarrow> metrics_table \<Rightarrow> last_values \<times> (error + metrics_table)" where
  "insert_sensors ts e [] lv tbl = (lv, Inr tbl)"
| "insert_sensors ts e (s # ss) lv tbl =
     (case generate_random_walk_value (fst (draws e s)) s ''temp'' lv of
        Inl err \<Rightarrow> (lv, Inl err)
      | Inr (temp, lv1) \<Rightarrow>
          (case generate_random_walk_value (snd (draws e s)) s ''humidity'' lv1 of
             Inl err \<Rightarrow> (lv1, Inl err)
           | Inr (hum, lv2) \<Rightarrow>
               (case execute_insert (insert_fault e s)
                       \<lparr>timestamp = ts, sensor_id = s, temperature = temp, humidity = hum\<rparr> tbl of
                  Inl err \<Rightarrow> (lv2, Inl err)
                | Inr tbl' \<Rightarrow> insert_sensors ts e ss lv2 tbl')))"

text \<open>
  \<^verbatim>\<open>clean_old_data(minutes)\<close>, lines 94--110. The count is printed when positive; a
  fault of the engine is printed and the table is left as it was.
\<close>

definition clean_old_data :: "int \<Rightarrow> bool \<Rightarrow> int \<Rightarrow> state \<Rightarrow> state" where
  "clean_old_data now fault minutes st =
     (let cutoff = now - minutes * 60 in
      if fault then st\<lparr>stdout := stdout st @ [Error_cleaning OperationalError]\<rparr>
      else
        (let (tbl, deleted) = execute_delete cutoff (metrics st) in
         st\<lparr>metrics := tbl,
            stdout := stdout st @ (if deleted > 0 then [Cleaned_up deleted] else [])\<rparr>))"

text \<open>
  Lines 63--88: the timestamp is read once, the loop runs on a fresh connection, and
  \<^verbatim>\<open>conn.commit()\<close> is reached only when the loop ends without an exception.
  Otherwise the connection is closed with its inserts uncommitted, and they are lost.
\<close>

definition try_insert :: "env \<Rightarrow> state \<Rightarrow> state" where
  "try_insert e st =
     (let timestamp = time_insert e in
      case insert_sensors timestamp e SENSORS (last_values st) (metrics st) of
        (lv, Inr tbl) \<Rightarrow>
          st\<lparr>last_values := lv, metrics := tbl, stdout := stdout st @ [Inserted_metrics]\<rparr>
      | (lv, Inl err) \<Rightarrow>
          st\<lparr>last_values := lv,
             stdout := stdout st @
               (if \<not> unique_constraint_failed_in_str err then [Error_inserting err] else [])\<rparr>)"

definition generate_and_insert_metric :: "env \<Rightarrow> state \<Rightarrow> state" where
  "generate_and_insert_metric e st =
     clean_old_data (time_clean e) (delete_fault e) 60 (try_insert e st)"

text \<open>
  \<^verbatim>\<open>run()\<close> loops until it is interrupted: the list holds what the ticks made before
  the interrupt took from outside, one entry a tick.
\<close>

fun run :: "env list \<Rightarrow> state \<Rightarrow> state" where
  "run [] st = st"
| "run (e # es) st = run es (generate_and_insert_metric e st)"

definition initial_state :: state where
  "initial_state = \<lparr>last_values = LAST_VALUES, metrics = [], stdout = []\<rparr>"

subsection \<open>Query service (db.py, lines 37--69; main.py, lines 31--59)\<close>

definition get_metrics_last_n_minutes :: "int \<Rightarrow> int \<Rightarrow> metrics_table \<Rightarrow> reading list" where
  "get_metrics_last_n_minutes now minutes tbl =
     (let cutoff = now - minutes * 60 in execute_select cutoff tbl)"

datatype json =
    JInt int
  | JFloat real
  | JStr string
  | JList "json list"
  | JObj "(string \<times> json) list"

text \<open>\<^verbatim>\<open>dict(row)\<close>: the selected columns, in the order of the \<^verbatim>\<open>SELECT\<close>.\<close>

definition dict_of_row :: "reading \<Rightarrow> json" where
  "dict_of_row r =
     JObj [(''timestamp'', JInt (timestamp r)), (''sensor_id'', JStr (sensor_id r)),
           (''temperature'', JFloat (temperature r)), (''humidity'', JFloat (humidity r))]"

text \<open>
  The handler reads the clock twice: once inside the query, once for the timestamp of
  the answer.
\<close>

definition get_metrics :: "int \<Rightarrow> int \<Rightarrow> metrics_table \<Rightarrow> json" where
  "get_metrics now_query now_response tbl =
     (let metrics = get_metrics_last_n_minutes now_query 60 tbl in
      JObj [(''timestamp'', JInt now_response), (''data'', JList (map dict_of_row metrics))])"

definition health_check :: json where
  "health_check = JObj [(''status'', JStr ''ok'')]"

text \<open>
  The two \<^verbatim>\<open>@app.get\<close> routes. A handler that returns is answered with status 200 and
  its value as the JSON body; a path no route matches is answered with 404 and the
  framework's body. The framework's own documentation routes and its redirect of a
  path that differs from a route by a final slash are not modelled.
\<close>

record response =
  status_code :: nat
  body :: json

definition app_get :: "string \<Rightarrow> int \<Rightarrow> int \<Rightarrow> metrics_table \<Rightarrow> response" where
  "app_get path now_query now_response tbl =
     (if path = ''/api/metrics''
        then \<lparr>status_code = 200, body = get_metrics now_query now_response tbl\<rparr>
      else if path = ''/health''
        then \<lparr>status_code = 200, body = health_check\<rparr>
      else \<lparr>status_code = 404, body = JObj [(''detail'', JStr ''Not Found'')]\<rparr>)"

section \<open>Properties\<close>

subsection \<open>Value generator\<close>

lemma CHANGES_nonempty: "CHANGES \<noteq> []" "length CHANGES = 5"
  by (simp_all add: CHANGES_def)

lemma random_choice_CHANGES:
  "\<exists>c. random_choice r CHANGES = Inr c \<and> c \<in> set CHANGES"
  by (simp add: random_choice_def CHANGES_nonempty)

lemma random_choice_onto:
  assumes "c \<in> set CHANGES"
  shows "\<exists>r. random_choice r CHANGES = Inr c"
proof -
  from assms obtain i where i: "i < length CHANGES" "CHANGES ! i = c"
    by (auto simp: in_set_conv_nth)
  then have "random_choice i CHANGES = Inr c"
    by (simp add: random_choice_def CHANGES_nonempty)
  then show ?thesis ..
qed

lemma generate_random_walk_value_Inr:
  assumes "lv s = Some d" and "d m = Some v" and "random_choice r CHANGES = Inr c"
  shows "generate_random_walk_value r s m lv =
           Inr (max (range_min m) (min (range_max m) (v + c)),
                lv(s \<mapsto> d(m \<mapsto> max (range_min m) (min (range_max m) (v + c)))))"
  using assms by (simp add: generate_random_walk_value_def range_min_def range_max_def Let_def)

lemma range_ordered: "range_min m \<le> range_max m"
  by (simp add: range_min_def range_max_def TEMP_MIN_def TEMP_MAX_def HUMIDITY_MIN_def HUMIDITY_MAX_def)

lemma clamp_in_range:
  "range_min m \<le> max (range_min m) (min (range_max m) x) \<and>
   max (range_min m) (min (range_max m) x) \<le> range_max m"
  using range_ordered [of m] by auto

lemma generate_random_walk_value_result:
  assumes "lv s = Some d" and "d m = Some v"
  shows "\<exists>c w. c \<in> set CHANGES \<and> w = max (range_min m) (min (range_max m) (v + c)) \<and>
           generate_random_walk_value r s m lv = Inr (w, lv(s \<mapsto> d(m \<mapsto> w)))"
proof -
  obtain c where c: "random_choice r CHANGES = Inr c" "c \<in> set CHANGES"
    using random_choice_CHANGES by blast
  with assms show ?thesis
    by (auto simp: generate_random_walk_value_Inr)
qed

lemma walk_in_range:
  assumes "lv s = Some d" and "d m = Some v"
  shows "\<exists>vs lv'. walk rs s m lv = Inr (vs, lv') \<and> length vs = length rs \<and>
           list_all (\<lambda>x. range_min m \<le> x \<and> x \<le> range_max m) vs"
  using assms
proof (induction rs arbitrary: lv d v)
  case Nil
  then show ?case by simp
next
  case (Cons r rs)
  from generate_random_walk_value_result [of lv s d m v r] Cons.prems
  obtain w where w: "generate_random_walk_value r s m lv = Inr (w, lv(s \<mapsto> d(m \<mapsto> w)))"
    and wr: "range_min m \<le> w \<and> w \<le> range_max m"
    using clamp_in_range by blast
  have "(lv(s \<mapsto> d(m \<mapsto> w))) s = Some (d(m \<mapsto> w))" "(d(m \<mapsto> w)) m = Some w"
    by simp_all
  from Cons.IH [of "lv(s \<mapsto> d(m \<mapsto> w))" "d(m \<mapsto> w)" w] this obtain vs lv' where
    "walk rs s m (lv(s \<mapsto> d(m \<mapsto> w))) = Inr (vs, lv')" "length vs = length rs"
    "list_all (\<lambda>x. range_min m \<le> x \<and> x \<le> range_max m) vs"
    by blast
  with w wr show ?case by simp
qed


lemma generate_random_walk_value_InrD:
  assumes "generate_random_walk_value r s m lv = Inr (w, lv')"
  shows "\<exists>d v. lv s = Some d \<and> d m = Some v \<and> lv' = lv(s \<mapsto> d(m \<mapsto> w)) \<and>
           range_min m \<le> w \<and> w \<le> range_max m"
proof -
  from assms obtain d where d: "lv s = Some d"
    by (auto simp: generate_random_walk_value_def split: option.splits)
  with assms obtain v where v: "d m = Some v"
    by (auto simp: generate_random_walk_value_def split: option.splits)
  from generate_random_walk_value_result [of lv s d m v r] d v assms
  show ?thesis using clamp_in_range by auto
qed

lemma generate_preserves_entry:
  assumes "generate_random_walk_value r' s' m' lv = Inr (w', lv')"
    and "entry_in_range lv s m"
  shows "entry_in_range lv' s m"
proof -
  from generate_random_walk_value_InrD [OF assms(1)] obtain d v where
    *: "lv s' = Some d" "d m' = Some v" "lv' = lv(s' \<mapsto> d(m' \<mapsto> w'))"
       "range_min m' \<le> w'" "w' \<le> range_max m'"
    by blast
  with assms(2) show ?thesis
    by (auto simp: entry_in_range_def split: option.splits)
qed

lemma generate_preserves_values_in_range:
  assumes "generate_random_walk_value r s m lv = Inr (w, lv')"
    and "values_in_range lv"
  shows "values_in_range lv'"
proof -
  from generate_random_walk_value_InrD [OF assms(1)] obtain d v where
    *: "lv s = Some d" "d m = Some v" "lv' = lv(s \<mapsto> d(m \<mapsto> w))"
       "range_min m \<le> w" "w \<le> range_max m"
    by blast
  show ?thesis
    unfolding values_in_range_def
  proof (intro allI impI)
    fix s1 d1 m1 v1
    assume a: "lv' s1 = Some d1" "d1 m1 = Some v1"
    show "range_min m1 \<le> v1 \<and> v1 \<le> range_max m1"
    proof (cases "s1 = s")
      case True
      with a * have d1: "d1 = d(m \<mapsto> w)" by simp
      show ?thesis
      proof (cases "m1 = m")
        case True
        with d1 a * show ?thesis by simp
      next
        case False
        with d1 a have "d m1 = Some v1" by simp
        with assms(2) * show ?thesis unfolding values_in_range_def by blast
      qed
    next
      case False
      with a * have "lv s1 = Some d1" by simp
      with assms(2) a show ?thesis unfolding values_in_range_def by blast
    qed
  qed
qed

text \<open>
  C1. For every sensor and metric name with a stored last value, the generator returns
  the last value plus a perturbation drawn from \<open>{-0.1, -0.05, 0, 0.05, 0.1}\<close> (each
  of which can be drawn), clamped to the range of the metric: temperature \<open>[16, 26]\<close>,
  humidity \<open>[40, 70]\<close>. Every output of every sequence of walk steps lies in the range,
  bounds included. From a last value on the upper bound a positive perturbation returns
  the upper bound, and from one on the lower bound a negative perturbation returns the
  lower bound.
\<close>

theorem generator_clamped_random_walk:
  assumes "lv s = Some d" and "d m = Some v"
  shows "set CHANGES = {- 0.1, - 0.05, 0, 0.05, 0.1} \<and>
         range_min ''temp'' = 16 \<and> range_max ''temp'' = 26 \<and>
         range_min ''humidity'' = 40 \<and> range_max ''humidity'' = 70 \<and>
         (\<exists>c lv'. c \<in> set CHANGES \<and> random_choice r CHANGES = Inr c \<and>
            generate_random_walk_value r s m lv =
              Inr (max (range_min m) (min (range_max m) (v + c)), lv')) \<and>
         (\<forall>c \<in> set CHANGES. \<exists>r'. random_choice r' CHANGES = Inr c) \<and>
         (\<exists>vs lv'. walk rs s m lv = Inr (vs, lv') \<and> length vs = length rs \<and>
            (\<forall>x \<in> set vs. range_min m \<le> x \<and> x \<le> range_max m)) \<and>
         (\<forall>c. random_choice r CHANGES = Inr c \<longrightarrow> v = range_max m \<longrightarrow> 0 < c \<longrightarrow>
            (\<exists>lv'. generate_random_walk_value r s m lv = Inr (range_max m, lv'))) \<and>
         (\<forall>c. random_choice r CHANGES = Inr c \<longrightarrow> v = range_min m \<longrightarrow> c < 0 \<longrightarrow>
            (\<exists>lv'. generate_random_walk_value r s m lv = Inr (range_min m, lv')))"
proof -
  have a: "set CHANGES = {- 0.1, - 0.05, 0, 0.05, 0.1}"
    by (simp add: CHANGES_def)
  have b: "range_min ''temp'' = 16 \<and> range_max ''temp'' = 26 \<and>
           range_min ''humidity'' = 40 \<and> range_max ''humidity'' = 70"
    by (simp add: range_min_def range_max_def TEMP_MIN_def TEMP_MAX_def
        HUMIDITY_MIN_def HUMIDITY_MAX_def)
  obtain c where c: "random_choice r CHANGES = Inr c" "c \<in> set CHANGES"
    using random_choice_CHANGES by blast
  have step: "generate_random_walk_value r s m lv =
      Inr (max (range_min m) (min (range_max m) (v + c)),
           lv(s \<mapsto> d(m \<mapsto> max (range_min m) (min (range_max m) (v + c)))))"
    using generate_random_walk_value_Inr [of lv s d m v r c] assms c(1) by blast
  have c1: "\<exists>c lv'. c \<in> set CHANGES \<and> random_choice r CHANGES = Inr c \<and>
            generate_random_walk_value r s m lv =
              Inr (max (range_min m) (min (range_max m) (v + c)), lv')"
    using c step by blast
  have c2: "\<forall>c \<in> set CHANGES. \<exists>r'. random_choice r' CHANGES = Inr c"
    using random_choice_onto by blast
  from walk_in_range [of lv s d m v rs] assms
  have c3: "\<exists>vs lv'. walk rs s m lv = Inr (vs, lv') \<and> length vs = length rs \<and>
            (\<forall>x \<in> set vs. range_min m \<le> x \<and> x \<le> range_max m)"
    by (simp add: list_all_iff)
  have c4: "\<forall>c. random_choice r CHANGES = Inr c \<longrightarrow> v = range_max m \<longrightarrow> 0 < c \<longrightarrow>
            (\<exists>lv'. generate_random_walk_value r s m lv = Inr (range_max m, lv'))"
  proof (intro allI impI)
    fix c' assume "random_choice r CHANGES = Inr c'" "v = range_max m" "0 < c'"
    with c step range_ordered [of m] show "\<exists>lv'. generate_random_walk_value r s m lv = Inr (range_max m, lv')"
      by (simp add: max_def min_def)
  qed
  have c5: "\<forall>c. random_choice r CHANGES = Inr c \<longrightarrow> v = range_min m \<longrightarrow> c < 0 \<longrightarrow>
            (\<exists>lv'. generate_random_walk_value r s m lv = Inr (range_min m, lv'))"
  proof (intro allI impI)
    fix c' assume "random_choice r CHANGES = Inr c'" "v = range_min m" "c' < 0"
    with c step range_ordered [of m] show "\<exists>lv'. generate_random_walk_value r s m lv = Inr (range_min m, lv')"
      by (simp add: max_def min_def)
  qed
  from a b c1 c2 c3 c4 c5 show ?thesis by blast
qed

theorem generator_clamped_random_walk_witness:
  "LAST_VALUES ''THS No. 1'' = Some [''temp'' \<mapsto> 21.0, ''humidity'' \<mapsto> 55.0] \<and>
   [''temp'' \<mapsto> 21.0, ''humidity'' \<mapsto> 55.0 :: real] ''temp'' = Some 21 \<and>
   (\<exists>vs lv'. walk [4, 0, 2] ''THS No. 1'' ''temp'' LAST_VALUES = Inr (vs, lv') \<and>
      length vs = length [4, 0, 2 :: nat] \<and>
      (\<forall>x \<in> set vs. range_min ''temp'' \<le> x \<and> x \<le> range_max ''temp''))"
proof -
  have h1: "LAST_VALUES ''THS No. 1'' = Some [''temp'' \<mapsto> 21.0, ''humidity'' \<mapsto> 55.0]"
    by (simp add: LAST_VALUES_def)
  have h2: "[''temp'' \<mapsto> 21.0, ''humidity'' \<mapsto> 55.0 :: real] ''temp'' = Some 21"
    by simp
  from generator_clamped_random_walk
         [of LAST_VALUES "''THS No. 1''" "[''temp'' \<mapsto> 21.0, ''humidity'' \<mapsto> 55.0]"
             "''temp''" 21 0 "[4, 0, 2]"] h1 h2
  show ?thesis by blast
qed

lemma walk_preserves_entry:
  assumes "walk rs s' m' lv = Inr (vs, lv')" and "entry_in_range lv s m"
  shows "entry_in_range lv' s m"
  using assms
proof (induction rs arbitrary: lv vs)
  case Nil
  then show ?case by simp
next
  case (Cons r rs)
  from Cons.prems(1) obtain w lv1 vs1 where
    g: "generate_random_walk_value r s' m' lv = Inr (w, lv1)" and
    k: "walk rs s' m' lv1 = Inr (vs1, lv')"
    by (auto split: sum.splits prod.splits)
  from generate_preserves_entry [OF g Cons.prems(2)] have "entry_in_range lv1 s m" .
  with Cons.IH [OF k] show ?case by blast
qed

text \<open>
  C10. For every stored last value, also one outside the range of its metric, one call
  of the generator returns a value in the range and overwrites the stored entry with
  exactly that value. From then on the entry stays in range under every later call, on
  this entry or another, and a dictionary whose stored values all lie in range keeps
  this property.
\<close>

theorem generator_overwrites_state_in_range:
  assumes "lv s = Some d" and "d m = Some v"
  shows "\<exists>w. generate_random_walk_value r s m lv = Inr (w, lv(s \<mapsto> d(m \<mapsto> w))) \<and>
           range_min m \<le> w \<and> w \<le> range_max m \<and>
           entry_in_range (lv(s \<mapsto> d(m \<mapsto> w))) s m \<and>
           (\<forall>r' s' m' w' lv'.
              generate_random_walk_value r' s' m' (lv(s \<mapsto> d(m \<mapsto> w))) = Inr (w', lv') \<longrightarrow>
              entry_in_range lv' s m) \<and>
           (\<forall>rs. \<exists>vs lv'. walk rs s m (lv(s \<mapsto> d(m \<mapsto> w))) = Inr (vs, lv') \<and>
              entry_in_range lv' s m) \<and>
           (values_in_range lv \<longrightarrow> values_in_range (lv(s \<mapsto> d(m \<mapsto> w))))"
proof -
  from generate_random_walk_value_result [of lv s d m v r] assms
  obtain w where w: "generate_random_walk_value r s m lv = Inr (w, lv(s \<mapsto> d(m \<mapsto> w)))"
    and wr: "range_min m \<le> w" "w \<le> range_max m"
    using clamp_in_range by blast
  let ?lv = "lv(s \<mapsto> d(m \<mapsto> w))"
  have e: "entry_in_range ?lv s m"
    using wr by (simp add: entry_in_range_def)
  have p: "\<forall>r' s' m' w' lv'.
      generate_random_walk_value r' s' m' ?lv = Inr (w', lv') \<longrightarrow> entry_in_range lv' s m"
    using generate_preserves_entry e by blast
  have q: "\<forall>rs. \<exists>vs lv'. walk rs s m ?lv = Inr (vs, lv') \<and> entry_in_range lv' s m"
  proof
    fix rs
    have "?lv s = Some (d(m \<mapsto> w))" "(d(m \<mapsto> w)) m = Some w" by simp_all
    from walk_in_range [of ?lv s "d(m \<mapsto> w)" m w rs] this
    obtain vs lv' where vs: "walk rs s m ?lv = Inr (vs, lv')" by blast
    from walk_preserves_entry [OF vs e] have "entry_in_range lv' s m" .
    with vs show "\<exists>vs lv'. walk rs s m ?lv = Inr (vs, lv') \<and> entry_in_range lv' s m" by blast
  qed
  have i: "values_in_range lv \<longrightarrow> values_in_range ?lv"
    using generate_preserves_values_in_range [OF w] by blast
  from w wr e p q i show ?thesis by blast
qed

theorem generator_overwrites_state_in_range_witness:
  "[''s'' \<mapsto> [''temp'' \<mapsto> (100::real)]] ''s'' = Some [''temp'' \<mapsto> 100] \<and>
   [''temp'' \<mapsto> (100::real)] ''temp'' = Some 100 \<and>
   (\<exists>w. generate_random_walk_value 0 ''s'' ''temp'' [''s'' \<mapsto> [''temp'' \<mapsto> 100]] =
          Inr (w, [''s'' \<mapsto> [''temp'' \<mapsto> 100]](''s'' \<mapsto> [''temp'' \<mapsto> 100](''temp'' \<mapsto> w))) \<and>
        range_min ''temp'' \<le> w \<and> w \<le> range_max ''temp'')"
proof -
  have h1: "[''s'' \<mapsto> [''temp'' \<mapsto> (100::real)]] ''s'' = Some [''temp'' \<mapsto> 100]"
    by simp
  have h2: "[''temp'' \<mapsto> (100::real)] ''temp'' = Some 100"
    by simp
  from generator_overwrites_state_in_range
         [of "[''s'' \<mapsto> [''temp'' \<mapsto> (100::real)]]" "''s''" "[''temp'' \<mapsto> 100]" "''temp''" 100 0]
       h1 h2
  show ?thesis by blast
qed

text \<open>
  C7, as the specification has it: the generator modifies no state outside its return
  value. The generator of the sampler writes the module-level dictionary: after one call
  on the initial dictionary the entry of the first sensor's temperature holds the
  returned value, and the dictionary differs from the initial one.
\<close>

theorem generator_writes_last_values_counterexample:
  "generate_random_walk_value 4 ''THS No. 1'' ''temp'' LAST_VALUES =
     Inr (21.1, LAST_VALUES(''THS No. 1'' \<mapsto> [''temp'' \<mapsto> 21.0, ''humidity'' \<mapsto> 55.0](''temp'' \<mapsto> 21.1))) \<and>
   LAST_VALUES(''THS No. 1'' \<mapsto> [''temp'' \<mapsto> 21.0, ''humidity'' \<mapsto> 55.0](''temp'' \<mapsto> 21.1)) \<noteq> LAST_VALUES"
proof -
  let ?d = "[''temp'' \<mapsto> 21.0, ''humidity'' \<mapsto> 55.0 :: real]"
  have h1: "LAST_VALUES ''THS No. 1'' = Some ?d"
    by (simp add: LAST_VALUES_def)
  have h2: "?d ''temp'' = Some 21"
    by simp
  have h3: "random_choice 4 CHANGES = Inr (0.1 :: real)"
    by (simp add: random_choice_def CHANGES_def)
  have w: "max (range_min ''temp'') (min (range_max ''temp'') (21 + 0.1)) = (21.1 :: real)"
    by (simp add: range_min_def range_max_def TEMP_MIN_def TEMP_MAX_def)
  have a: "generate_random_walk_value 4 ''THS No. 1'' ''temp'' LAST_VALUES =
     Inr (21.1, LAST_VALUES(''THS No. 1'' \<mapsto> ?d(''temp'' \<mapsto> 21.1)))"
    using generate_random_walk_value_Inr [of LAST_VALUES "''THS No. 1''" ?d "''temp''" 21 4 "0.1", OF h1 h2 h3]
    unfolding w .
  have b: "LAST_VALUES(''THS No. 1'' \<mapsto> ?d(''temp'' \<mapsto> 21.1)) \<noteq> LAST_VALUES"
  proof
    assume eq: "LAST_VALUES(''THS No. 1'' \<mapsto> ?d(''temp'' \<mapsto> 21.1)) = LAST_VALUES"
    have "(LAST_VALUES(''THS No. 1'' \<mapsto> ?d(''temp'' \<mapsto> 21.1))) ''THS No. 1'' = LAST_VALUES ''THS No. 1''"
      using eq by (rule fun_cong)
    then have "Some (?d(''temp'' \<mapsto> 21.1)) = Some ?d"
      unfolding h1 by (simp only: fun_upd_same)
    then have "?d(''temp'' \<mapsto> 21.1) = ?d"
      by (simp only: option.inject)
    then have "(?d(''temp'' \<mapsto> 21.1)) ''temp'' = ?d ''temp''"
      by (rule fun_cong)
    then show False by simp
  qed
  from a b show ?thesis by (rule conjI)
qed

text \<open>
  C7, amended. The value the generator returns is a function of the stored last value,
  the metric name and the random draw alone: any dictionary and sensor with the same
  stored value give the same result. The generator itself overwrites the entry of the
  sensor and metric with the returned value, and leaves every other entry as it was.
\<close>

theorem generator_result_and_frame:
  assumes "lv s = Some d" and "d m = Some v"
  shows "\<exists>w lv' d'. generate_random_walk_value r s m lv = Inr (w, lv') \<and>
           lv' s = Some d' \<and> d' m = Some w \<and>
           (\<forall>m'. m' \<noteq> m \<longrightarrow> d' m' = d m') \<and>
           (\<forall>s'. s' \<noteq> s \<longrightarrow> lv' s' = lv s') \<and>
           (\<forall>lv2 s2 d2. lv2 s2 = Some d2 \<longrightarrow> d2 m = Some v \<longrightarrow>
              (\<exists>lv2'. generate_random_walk_value r s2 m lv2 = Inr (w, lv2')))"
proof -
  obtain c where c: "random_choice r CHANGES = Inr c"
    using random_choice_CHANGES by blast
  let ?w = "max (range_min m) (min (range_max m) (v + c))"
  have g: "generate_random_walk_value r s m lv = Inr (?w, lv(s \<mapsto> d(m \<mapsto> ?w)))"
    using generate_random_walk_value_Inr [of lv s d m v r c] assms c by blast
  have f: "\<forall>lv2 s2 d2. lv2 s2 = Some d2 \<longrightarrow> d2 m = Some v \<longrightarrow>
              (\<exists>lv2'. generate_random_walk_value r s2 m lv2 = Inr (?w, lv2'))"
  proof (intro allI impI)
    fix lv2 :: last_values and s2 d2
    assume "lv2 s2 = Some d2" "d2 m = Some v"
    with generate_random_walk_value_Inr [of lv2 s2 d2 m v r c] c
    show "\<exists>lv2'. generate_random_walk_value r s2 m lv2 = Inr (?w, lv2')" by blast
  qed
  have "(lv(s \<mapsto> d(m \<mapsto> ?w))) s = Some (d(m \<mapsto> ?w))" "(d(m \<mapsto> ?w)) m = Some ?w"
    "\<forall>m'. m' \<noteq> m \<longrightarrow> (d(m \<mapsto> ?w)) m' = d m'"
    "\<forall>s'. s' \<noteq> s \<longrightarrow> (lv(s \<mapsto> d(m \<mapsto> ?w))) s' = lv s'"
    by simp_all
  with g f show ?thesis by blast
qed



theorem generator_result_and_frame_witness:
  "LAST_VALUES ''THS No. 1'' = Some [''temp'' \<mapsto> 21.0, ''humidity'' \<mapsto> 55.0] \<and>
   [''temp'' \<mapsto> 21.0, ''humidity'' \<mapsto> 55.0 :: real] ''temp'' = Some 21 \<and>
   (\<exists>w lv' d'. generate_random_walk_value 4 ''THS No. 1'' ''temp'' LAST_VALUES = Inr (w, lv') \<and>
      lv' ''THS No. 1'' = Some d' \<and> d' ''temp'' = Some w)"
proof -
  let ?d = "[''temp'' \<mapsto> 21.0, ''humidity'' \<mapsto> 55.0 :: real]"
  have h1: "LAST_VALUES ''THS No. 1'' = Some ?d"
    by (simp add: LAST_VALUES_def)
  have h2: "?d ''temp'' = Some 21"
    by simp
  from generator_result_and_frame [of LAST_VALUES "''THS No. 1''" ?d "''temp''" 21 4, OF h1 h2]
  obtain w lv' d' where
    "generate_random_walk_value 4 ''THS No. 1'' ''temp'' LAST_VALUES = Inr (w, lv')"
    "lv' ''THS No. 1'' = Some d'" "d' ''temp'' = Some w"
    by (elim exE conjE)
  then have "\<exists>w lv' d'. generate_random_walk_value 4 ''THS No. 1'' ''temp'' LAST_VALUES = Inr (w, lv') \<and>
      lv' ''THS No. 1'' = Some d' \<and> d' ''temp'' = Some w"
    by (intro exI conjI)
  with h1 h2 show ?thesis by (intro conjI)
qed

subsection \<open>Store\<close>

lemma execute_delete_fst: "fst (execute_delete cutoff tbl) = filter (\<lambda>r. cutoff \<le> timestamp r) tbl"
  by (simp add: execute_delete_def not_less)

lemma execute_delete_snd:
  "snd (execute_delete cutoff tbl) = length (filter (\<lambda>r. timestamp r < cutoff) tbl)"
  by (simp add: execute_delete_def)

lemma execute_delete_twice:
  "execute_delete cutoff (fst (execute_delete cutoff tbl)) = (fst (execute_delete cutoff tbl), 0)"
  by (simp add: execute_delete_def)

lemma clean_old_data_metrics:
  "metrics (clean_old_data now False minutes st) =
     filter (\<lambda>r. now - minutes * 60 \<le> timestamp r) (metrics st)"
  by (simp add: clean_old_data_def execute_delete_def not_less Let_def)

text \<open>
  C5. For every table and every cutoff, the delete removes all and only the rows whose
  timestamp is less than the cutoff: what stays is the table filtered to the rows with
  timestamp at least the cutoff, in their order and multiplicity, a row on the cutoff
  included; the removed rows are those below the cutoff, and their number is the count
  returned. \<^verbatim>\<open>clean_old_data\<close> reaches every cutoff, and leaves the walk state alone.
\<close>

theorem clean_old_data_removes_older_only:
  "metrics (clean_old_data (cutoff + minutes * 60) False minutes st) =
     filter (\<lambda>r. cutoff \<le> timestamp r) (metrics st) \<and>
   last_values (clean_old_data (cutoff + minutes * 60) False minutes st) = last_values st \<and>
   fst (execute_delete cutoff tbl) = filter (\<lambda>r. cutoff \<le> timestamp r) tbl \<and>
   snd (execute_delete cutoff tbl) = length (filter (\<lambda>r. timestamp r < cutoff) tbl) \<and>
   (r \<in> set (fst (execute_delete cutoff tbl)) \<longleftrightarrow> r \<in> set tbl \<and> \<not> timestamp r < cutoff) \<and>
   mset tbl = mset (fst (execute_delete cutoff tbl)) +
              filter_mset (\<lambda>r. timestamp r < cutoff) (mset tbl)"
proof -
  have a: "metrics (clean_old_data (cutoff + minutes * 60) False minutes st) =
     filter (\<lambda>r. cutoff \<le> timestamp r) (metrics st)"
    by (simp add: clean_old_data_metrics)
  have b: "last_values (clean_old_data (cutoff + minutes * 60) False minutes st) = last_values st"
    by (simp add: clean_old_data_def Let_def split: prod.splits)
  have c: "(r \<in> set (fst (execute_delete cutoff tbl)) \<longleftrightarrow> r \<in> set tbl \<and> \<not> timestamp r < cutoff)"
    by (auto simp: execute_delete_fst)
  have d: "mset tbl = mset (fst (execute_delete cutoff tbl)) +
              filter_mset (\<lambda>r. timestamp r < cutoff) (mset tbl)"
    by (simp add: execute_delete_def)
  from a b c d execute_delete_fst [of cutoff tbl] execute_delete_snd [of cutoff tbl]
  show ?thesis by (intro conjI)
qed

text \<open>
  C9. The delete is idempotent: a second call with the same cutoff leaves the state,
  the log included, as the first call left it, and deletes zero rows.
\<close>

theorem clean_old_data_idempotent:
  "clean_old_data now False minutes (clean_old_data now False minutes st) =
     clean_old_data now False minutes st \<and>
   execute_delete cutoff (fst (execute_delete cutoff tbl)) = (fst (execute_delete cutoff tbl), 0)"
proof -
  have "clean_old_data now False minutes (clean_old_data now False minutes st) =
     clean_old_data now False minutes st"
    by (simp add: clean_old_data_def execute_delete_def Let_def)
  with execute_delete_twice [of cutoff tbl] show ?thesis by (intro conjI)
qed

lemma execute_select_mset:
  "mset (execute_select cutoff tbl) = filter_mset (\<lambda>r. timestamp r > cutoff) (mset tbl)"
  by (simp add: execute_select_def)

lemma execute_select_set:
  "set (execute_select cutoff tbl) = {r \<in> set tbl. timestamp r > cutoff}"
  by (simp add: execute_select_def)

lemma execute_select_sorted:
  "sorted_wrt (\<lambda>a b. sensor_id a < sensor_id b \<or>
                      (sensor_id a = sensor_id b \<and> timestamp a \<le> timestamp b))
     (execute_select cutoff tbl)"
proof -
  have "sorted (map (\<lambda>r. (sensor_id r, timestamp r)) (execute_select cutoff tbl))"
    unfolding execute_select_def by (rule sorted_sort_key)
  then have "sorted_wrt (\<lambda>a b. (sensor_id a, timestamp a) \<le> (sensor_id b, timestamp b))
     (execute_select cutoff tbl)"
    by (simp add: sorted_map)
  then show ?thesis
    by (rule sorted_wrt_mono_rel [rotated]) auto
qed

text \<open>
  C4. For every table and every call time, the window query returns exactly the rows
  with timestamp greater than the call time minus the window (each as often as the table
  holds it), ordered by \<^verbatim>\<open>sensor_id\<close>, then by timestamp ascending. The window is
  \<open>minutes * 60\<close> seconds; with 60 minutes no row returned has a timestamp at or before
  the call time minus 3600.
\<close>

theorem get_metrics_last_n_minutes_window_sorted:
  "mset (get_metrics_last_n_minutes now minutes tbl) =
     filter_mset (\<lambda>r. timestamp r > now - minutes * 60) (mset tbl) \<and>
   sorted_wrt (\<lambda>a b. sensor_id a < sensor_id b \<or>
                      (sensor_id a = sensor_id b \<and> timestamp a \<le> timestamp b))
     (get_metrics_last_n_minutes now minutes tbl) \<and>
   (\<forall>r \<in> set (get_metrics_last_n_minutes now 60 tbl). \<not> timestamp r \<le> now - 3600)"
proof -
  have a: "mset (get_metrics_last_n_minutes now minutes tbl) =
     filter_mset (\<lambda>r. timestamp r > now - minutes * 60) (mset tbl)"
    by (simp add: get_metrics_last_n_minutes_def execute_select_mset)
  have b: "sorted_wrt (\<lambda>a b. sensor_id a < sensor_id b \<or>
                      (sensor_id a = sensor_id b \<and> timestamp a \<le> timestamp b))
     (get_metrics_last_n_minutes now minutes tbl)"
    by (simp add: get_metrics_last_n_minutes_def execute_select_sorted)
  have c: "\<forall>r \<in> set (get_metrics_last_n_minutes now 60 tbl). \<not> timestamp r \<le> now - 3600"
    by (simp add: get_metrics_last_n_minutes_def execute_select_set)
  from a b c show ?thesis by (intro conjI)
qed

theorem get_metrics_last_n_minutes_window_sorted_witness:
  "get_metrics_last_n_minutes 10000 60
      [\<lparr>timestamp = 2800, sensor_id = ''THS No. 1'', temperature = 21, humidity = 55\<rparr>,
       \<lparr>timestamp = 9970, sensor_id = ''THS No. 1'', temperature = 21.1, humidity = 55\<rparr>] =
      [\<lparr>timestamp = 9970, sensor_id = ''THS No. 1'', temperature = 21.1, humidity = 55\<rparr>] \<and>
   \<not> timestamp \<lparr>timestamp = 9970, sensor_id = ''THS No. 1'', temperature = 21.1, humidity = 55\<rparr>
       \<le> (10000 :: int) - 3600"
proof -
  let ?tbl = "[\<lparr>timestamp = 2800, sensor_id = ''THS No. 1'', temperature = 21, humidity = 55\<rparr>,
       \<lparr>timestamp = 9970, sensor_id = ''THS No. 1'', temperature = 21.1, humidity = 55 :: real\<rparr>]"
  let ?r = "\<lparr>timestamp = 9970, sensor_id = ''THS No. 1'', temperature = 21.1, humidity = 55 :: real\<rparr>"
  have e: "get_metrics_last_n_minutes 10000 60 ?tbl = [?r]"
    by (simp add: get_metrics_last_n_minutes_def execute_select_def)
  then have m: "?r \<in> set (get_metrics_last_n_minutes 10000 60 ?tbl)"
    by simp
  from get_metrics_last_n_minutes_window_sorted [of 10000 60 ?tbl]
  have "\<forall>r \<in> set (get_metrics_last_n_minutes 10000 60 ?tbl). \<not> timestamp r \<le> 10000 - 3600"
    by (elim conjE)
  with m have "\<not> timestamp ?r \<le> 10000 - 3600" by (rule bspec [rotated])
  with e show ?thesis by (intro conjI)
qed

text \<open>The order on text is the order of the bytes, a proper prefix first.\<close>

lemma text_order_examples:
  "''THS No. 1'' < ''THS No. 2'' \<and> ''THS No. 2'' < ''THS No. 3'' \<and> ''THS'' < ''THS No. 1'' \<and> ''A'' < ''a''"
  by simp

subsection \<open>Query service\<close>

text \<open>
  C6, as the specification has it: \<^verbatim>\<open>GET /metrics\<close> is answered with 200. The
  application routes \<^verbatim>\<open>/api/metrics\<close> and \<^verbatim>\<open>/health\<close> only, and \<^verbatim>\<open>/metrics\<close> is
  answered with 404.
\<close>

theorem metrics_path_not_routed_counterexample:
  "status_code (app_get ''/metrics'' 1706745600 1706745600 []) = 404"
  by (simp add: app_get_def)

text \<open>
  C6, amended. \<^verbatim>\<open>GET /api/metrics\<close> is answered with 200 and the JSON object of the
  server's timestamp and the list \<^verbatim>\<open>data\<close>, whose items carry \<^verbatim>\<open>timestamp\<close>,
  \<^verbatim>\<open>sensor_id\<close>, \<^verbatim>\<open>temperature\<close> and \<^verbatim>\<open>humidity\<close>, one item for each row of the
  last 3600 seconds, ordered by \<^verbatim>\<open>sensor_id\<close>, then by timestamp ascending. With no
  row in the window the list is empty.
\<close>

theorem api_metrics_response:
  "status_code (app_get ''/api/metrics'' now_query now_response tbl) = 200 \<and>
   body (app_get ''/api/metrics'' now_query now_response tbl) =
     JObj [(''timestamp'', JInt now_response),
           (''data'', JList (map dict_of_row (get_metrics_last_n_minutes now_query 60 tbl)))] \<and>
   dict_of_row r =
     JObj [(''timestamp'', JInt (timestamp r)), (''sensor_id'', JStr (sensor_id r)),
           (''temperature'', JFloat (temperature r)), (''humidity'', JFloat (humidity r))] \<and>
   mset (get_metrics_last_n_minutes now_query 60 tbl) =
     filter_mset (\<lambda>r. timestamp r > now_query - 3600) (mset tbl) \<and>
   sorted_wrt (\<lambda>a b. sensor_id a < sensor_id b \<or>
                      (sensor_id a = sensor_id b \<and> timestamp a \<le> timestamp b))
     (get_metrics_last_n_minutes now_query 60 tbl) \<and>
   (filter (\<lambda>r. timestamp r > now_query - 3600) tbl = [] \<longrightarrow>
      app_get ''/api/metrics'' now_query now_response tbl =
        \<lparr>status_code = 200,
         body = JObj [(''timestamp'', JInt now_response), (''data'', JList [])]\<rparr>)"
proof -
  have a: "status_code (app_get ''/api/metrics'' now_query now_response tbl) = 200"
    by (simp add: app_get_def)
  have b: "body (app_get ''/api/metrics'' now_query now_response tbl) =
     JObj [(''timestamp'', JInt now_response),
           (''data'', JList (map dict_of_row (get_metrics_last_n_minutes now_query 60 tbl)))]"
    by (simp add: app_get_def get_metrics_def)
  have c: "dict_of_row r =
     JObj [(''timestamp'', JInt (timestamp r)), (''sensor_id'', JStr (sensor_id r)),
           (''temperature'', JFloat (temperature r)), (''humidity'', JFloat (humidity r))]"
    by (simp add: dict_of_row_def)
  have d: "mset (get_metrics_last_n_minutes now_query 60 tbl) =
     filter_mset (\<lambda>r. timestamp r > now_query - 3600) (mset tbl)"
    by (simp add: get_metrics_last_n_minutes_def execute_select_mset)
  have e: "sorted_wrt (\<lambda>a b. sensor_id a < sensor_id b \<or>
                      (sensor_id a = sensor_id b \<and> timestamp a \<le> timestamp b))
     (get_metrics_last_n_minutes now_query 60 tbl)"
    by (simp add: get_metrics_last_n_minutes_def execute_select_sorted)
  have f: "filter (\<lambda>r. timestamp r > now_query - 3600) tbl = [] \<longrightarrow>
      app_get ''/api/metrics'' now_query now_response tbl =
        \<lparr>status_code = 200,
         body = JObj [(''timestamp'', JInt now_response), (''data'', JList [])]\<rparr>"
    by (simp add: app_get_def get_metrics_def get_metrics_last_n_minutes_def execute_select_def)
  from a b c d e f show ?thesis by (intro conjI)
qed

theorem api_metrics_response_witness:
  "filter (\<lambda>r. timestamp r > 1706745600 - 3600) ([] :: reading list) = [] \<and>
   app_get ''/api/metrics'' 1706745600 1706745601 [] =
     \<lparr>status_code = 200,
      body = JObj [(''timestamp'', JInt 1706745601), (''data'', JList [])]\<rparr>"
proof -
  have h: "filter (\<lambda>r. timestamp r > 1706745600 - 3600) ([] :: reading list) = []"
    by simp
  from api_metrics_response
         [of 1706745600 1706745601 "[]"
             "\<lparr>timestamp = 0, sensor_id = [], temperature = 0, humidity = 0\<rparr>"]
  have "filter (\<lambda>r. timestamp r > 1706745600 - 3600) ([] :: reading list) = [] \<longrightarrow>
      app_get ''/api/metrics'' 1706745600 1706745601 [] =
        \<lparr>status_code = 200,
         body = JObj [(''timestamp'', JInt 1706745601), (''data'', JList [])]\<rparr>"
    by (elim conjE)
  with h show ?thesis by simp
qed

subsection \<open>Sampler loop\<close>

lemma has_entries_Cons:
  "has_entries lv (s # ss) \<longleftrightarrow>
     (\<exists>d t h. lv s = Some d \<and> d ''temp'' = Some t \<and> d ''humidity'' = Some h) \<and> has_entries lv ss"
  by (auto simp: has_entries_def split: option.splits)

lemma has_entries_upd:
  assumes "has_entries lv ss" and "lv s = Some d" and "d m = Some v"
  shows "has_entries (lv(s \<mapsto> d(m \<mapsto> w))) ss"
  using assms by (induction ss) (auto simp: has_entries_def split: option.splits)

lemma generate_preserves_has_entries:
  assumes "generate_random_walk_value r s m lv = Inr (w, lv')" and "has_entries lv ss"
  shows "has_entries lv' ss"
proof -
  from generate_random_walk_value_InrD [OF assms(1)] obtain d v where
    "lv s = Some d" "d m = Some v" "lv' = lv(s \<mapsto> d(m \<mapsto> w))"
    by blast
  with assms(2) show ?thesis by (simp add: has_entries_upd)
qed

lemma execute_insert_cases:
  "execute_insert fault row tbl =
     (if fault then Inl OperationalError
      else if key_stored (timestamp row) (sensor_id row) tbl then Inl UniqueConstraintFailed
      else Inr (tbl @ [row]))"
proof -
  have "same_key row = (\<lambda>r. timestamp r = timestamp row \<and> sensor_id r = sensor_id row)"
    by (auto simp: same_key_def fun_eq_iff)
  then show ?thesis by (simp add: execute_insert_def key_stored_def)
qed

lemma key_stored_append:
  "key_stored ts s (tbl @ rows) \<longleftrightarrow> key_stored ts s tbl \<or> key_stored ts s rows"
  by (simp add: key_stored_def)

lemma insert_sensors_Cons_InrE:
  assumes "insert_sensors ts e (s # ss) lv tbl = (lv', Inr tbl')"
  obtains temp lv1 hum lv2 tbl1 where
    "generate_random_walk_value (fst (draws e s)) s ''temp'' lv = Inr (temp, lv1)"
    "generate_random_walk_value (snd (draws e s)) s ''humidity'' lv1 = Inr (hum, lv2)"
    "execute_insert (insert_fault e s)
       \<lparr>timestamp = ts, sensor_id = s, temperature = temp, humidity = hum\<rparr> tbl = Inr tbl1"
    "insert_sensors ts e ss lv2 tbl1 = (lv', Inr tbl')"
proof (cases "generate_random_walk_value (fst (draws e s)) s ''temp'' lv")
  case (Inl err)
  from assms have "(lv, Inl err :: error + metrics_table) = (lv', Inr tbl')"
    by (simp only: insert_sensors.simps Inl sum.case)
  then have False by (simp only: prod.inject sum.distinct simp_thms)
  then show ?thesis ..
next
  case (Inr p)
  obtain temp lv1 where p: "p = (temp, lv1)" by (cases p)
  from Inr p have g1: "generate_random_walk_value (fst (draws e s)) s ''temp'' lv = Inr (temp, lv1)"
    by (simp only:)
  show ?thesis
  proof (cases "generate_random_walk_value (snd (draws e s)) s ''humidity'' lv1")
    case (Inl err)
    from assms have "(lv1, Inl err :: error + metrics_table) = (lv', Inr tbl')"
      by (simp only: insert_sensors.simps g1 Inl sum.case prod.case)
    then have False by (simp only: prod.inject sum.distinct simp_thms)
    then show ?thesis ..
  next
    case g2: (Inr q)
    obtain hum lv2 where q: "q = (hum, lv2)" by (cases q)
    from g2 q have g2': "generate_random_walk_value (snd (draws e s)) s ''humidity'' lv1 = Inr (hum, lv2)"
      by (simp only:)
    show ?thesis
    proof (cases "execute_insert (insert_fault e s)
       \<lparr>timestamp = ts, sensor_id = s, temperature = temp, humidity = hum\<rparr> tbl")
      case (Inl err)
      from assms have "(lv2, Inl err :: error + metrics_table) = (lv', Inr tbl')"
        by (simp only: insert_sensors.simps g1 g2' Inl sum.case prod.case)
      then have False by (simp only: prod.inject sum.distinct simp_thms)
      then show ?thesis ..
    next
      case i: (Inr tbl1)
      from assms have k: "insert_sensors ts e ss lv2 tbl1 = (lv', Inr tbl')"
        by (simp only: insert_sensors.simps g1 g2' i sum.case prod.case)
      show ?thesis by (rule that [OF g1 g2' i k])
    qed
  qed
qed

lemma insert_sensors_appends:
  assumes "insert_sensors ts e ss lv tbl = (lv', Inr tbl')"
  shows "\<exists>rows. tbl' = tbl @ rows \<and> map sensor_id rows = ss \<and>
           map timestamp rows = replicate (length ss) ts"
  using assms
proof (induction ss arbitrary: lv tbl)
  case Nil
  then show ?case by simp
next
  case (Cons s ss)
  from Cons.prems obtain temp lv1 hum lv2 tbl1 where
    i: "execute_insert (insert_fault e s)
          \<lparr>timestamp = ts, sensor_id = s, temperature = temp, humidity = hum\<rparr> tbl = Inr tbl1"
    and k: "insert_sensors ts e ss lv2 tbl1 = (lv', Inr tbl')"
    by (rule insert_sensors_Cons_InrE)
  let ?row = "\<lparr>timestamp = ts, sensor_id = s, temperature = temp, humidity = hum\<rparr>"
  from i have t1: "tbl1 = tbl @ [?row]"
    by (simp add: execute_insert_cases split: if_splits)
  from Cons.IH [OF k] obtain rows where
    r: "tbl' = tbl1 @ rows" "map sensor_id rows = ss" "map timestamp rows = replicate (length ss) ts"
    by (elim exE conjE)
  have a: "tbl' = tbl @ (?row # rows)" using t1 r(1) by simp
  have b: "map sensor_id (?row # rows) = s # ss" using r(2) by simp
  have c: "map timestamp (?row # rows) = replicate (length (s # ss)) ts" using r(3) by simp
  from a b c show ?case by (intro exI conjI)
qed

lemma insert_sensors_fails:
  assumes "s \<in> set ss" and "insert_fault e s \<or> key_stored ts s tbl"
  shows "\<exists>lv' err. insert_sensors ts e ss lv tbl = (lv', Inl err)"
  using assms
proof (induction ss arbitrary: lv tbl)
  case Nil
  then show ?case by simp
next
  case (Cons x ss)
  show ?case
  proof (cases "generate_random_walk_value (fst (draws e x)) x ''temp'' lv")
    case (Inl err)
    then have "insert_sensors ts e (x # ss) lv tbl = (lv, Inl err)"
      by (simp only: insert_sensors.simps sum.case)
    then show ?thesis by (intro exI)
  next
    case (Inr p)
    obtain temp lv1 where p: "p = (temp, lv1)" by (cases p)
    from Inr p have g1: "generate_random_walk_value (fst (draws e x)) x ''temp'' lv = Inr (temp, lv1)"
      by (simp only:)
    show ?thesis
    proof (cases "generate_random_walk_value (snd (draws e x)) x ''humidity'' lv1")
      case (Inl err)
      then have "insert_sensors ts e (x # ss) lv tbl = (lv1, Inl err)"
        by (simp only: insert_sensors.simps g1 sum.case prod.case)
      then show ?thesis by (intro exI)
    next
      case g2: (Inr q)
      obtain hum lv2 where q: "q = (hum, lv2)" by (cases q)
      from g2 q have g2': "generate_random_walk_value (snd (draws e x)) x ''humidity'' lv1 = Inr (hum, lv2)"
        by (simp only:)
      let ?row = "\<lparr>timestamp = ts, sensor_id = x, temperature = temp, humidity = hum\<rparr>"
      show ?thesis
      proof (cases "execute_insert (insert_fault e x) ?row tbl")
        case (Inl err)
        then have "insert_sensors ts e (x # ss) lv tbl = (lv2, Inl err)"
          by (simp only: insert_sensors.simps g1 g2' sum.case prod.case)
        then show ?thesis by (intro exI)
      next
        case i: (Inr tbl1)
        then have t1: "tbl1 = tbl @ [?row]" and ok: "\<not> insert_fault e x" "\<not> key_stored ts x tbl"
          by (simp_all add: execute_insert_cases split: if_splits)
        from ok Cons.prems(2) have "s \<noteq> x" by metis
        with Cons.prems(1) have m: "s \<in> set ss" by simp
        from Cons.prems(2) t1 have f: "insert_fault e s \<or> key_stored ts s tbl1"
          by (auto simp: key_stored_append)
        from Cons.IH [OF m f, of lv2] obtain lv' err where
          "insert_sensors ts e ss lv2 tbl1 = (lv', Inl err)"
          by (elim exE)
        then have "insert_sensors ts e (x # ss) lv tbl = (lv', Inl err)"
          by (simp only: insert_sensors.simps g1 g2' i sum.case prod.case)
        then show ?thesis by (intro exI)
      qed
    qed
  qed
qed

lemma key_stored_single:
  "key_stored ts s [\<lparr>timestamp = ts', sensor_id = s', temperature = t, humidity = h\<rparr>] \<longleftrightarrow>
     ts' = ts \<and> s' = s"
  by (simp add: key_stored_def)

lemma generate_total:
  assumes "lv s = Some d" and "d m = Some v"
  obtains w where "generate_random_walk_value r s m lv = Inr (w, lv(s \<mapsto> d(m \<mapsto> w)))"
proof -
  from generate_random_walk_value_result [of lv s d m v r, OF assms]
  obtain c w where "generate_random_walk_value r s m lv = Inr (w, lv(s \<mapsto> d(m \<mapsto> w)))"
    by (elim exE conjE)
  then show ?thesis by (rule that)
qed

lemma insert_sensors_ok:
  assumes "has_entries lv ss" and "distinct ss"
    and "\<forall>s \<in> set ss. \<not> insert_fault e s"
    and "\<forall>s \<in> set ss. \<not> key_stored ts s tbl"
    and "has_entries lv ss0"
  shows "\<exists>lv' tbl'. insert_sensors ts e ss lv tbl = (lv', Inr tbl') \<and> has_entries lv' ss0"
  using assms
proof (induction ss arbitrary: lv tbl)
  case Nil
  then show ?case by simp
next
  case (Cons x ss)
  from Cons.prems(1) obtain d t h where
    d: "lv x = Some d" "d ''temp'' = Some t" "d ''humidity'' = Some h" and he: "has_entries lv ss"
    unfolding has_entries_Cons by (elim exE conjE)
  from d(1,2) obtain temp where
    g1: "generate_random_walk_value (fst (draws e x)) x ''temp'' lv =
           Inr (temp, lv(x \<mapsto> d(''temp'' \<mapsto> temp)))"
    by (rule generate_total)
  let ?lv1 = "lv(x \<mapsto> d(''temp'' \<mapsto> temp))"
  let ?d1 = "d(''temp'' \<mapsto> temp)"
  have d1: "?lv1 x = Some ?d1" "?d1 ''humidity'' = Some h"
    using d(3) by simp_all
  from d1 obtain hum where
    g2: "generate_random_walk_value (snd (draws e x)) x ''humidity'' ?lv1 =
           Inr (hum, ?lv1(x \<mapsto> ?d1(''humidity'' \<mapsto> hum)))"
    by (rule generate_total)
  let ?lv2 = "?lv1(x \<mapsto> ?d1(''humidity'' \<mapsto> hum))"
  let ?row = "\<lparr>timestamp = ts, sensor_id = x, temperature = temp, humidity = hum\<rparr>"
  from Cons.prems(3,4) have nf: "\<not> insert_fault e x" "\<not> key_stored ts x tbl"
    by simp_all
  then have i: "execute_insert (insert_fault e x) ?row tbl = Inr (tbl @ [?row])"
    by (simp add: execute_insert_cases)
  have h2: "has_entries ?lv2 ss"
    using generate_preserves_has_entries [OF g2 generate_preserves_has_entries [OF g1 he]] .
  have h0: "has_entries ?lv2 ss0"
    using generate_preserves_has_entries [OF g2 generate_preserves_has_entries [OF g1 Cons.prems(5)]] .
  from Cons.prems(2) have dis: "distinct ss" and xn: "x \<notin> set ss" by simp_all
  from Cons.prems(3) have f: "\<forall>s \<in> set ss. \<not> insert_fault e s" by simp
  have k: "\<forall>s \<in> set ss. \<not> key_stored ts s (tbl @ [?row])"
  proof
    fix s assume s: "s \<in> set ss"
    with Cons.prems(4) have "\<not> key_stored ts s tbl" by simp
    moreover from s xn have "x \<noteq> s" by metis
    ultimately show "\<not> key_stored ts s (tbl @ [?row])"
      by (simp add: key_stored_append key_stored_single)
  qed
  from Cons.IH [OF h2 dis f k h0] obtain lv' tbl' where
    r: "insert_sensors ts e ss ?lv2 (tbl @ [?row]) = (lv', Inr tbl')" and h: "has_entries lv' ss0"
    by (elim exE conjE)
  from r have "insert_sensors ts e (x # ss) lv tbl = (lv', Inr tbl')"
    by (simp only: insert_sensors.simps g1 g2 i sum.case prod.case)
  with h show ?case by (intro exI conjI)
qed

lemma insert_sensors_fail_unique:
  assumes "has_entries lv ss" and "\<forall>s \<in> set ss. \<not> insert_fault e s"
    and "insert_sensors ts e ss lv tbl = (lv', Inl err)"
  shows "err = UniqueConstraintFailed"
  using assms
proof (induction ss arbitrary: lv tbl)
  case Nil
  then show ?case by simp
next
  case (Cons x ss)
  from Cons.prems(1) obtain d t h where
    d: "lv x = Some d" "d ''temp'' = Some t" "d ''humidity'' = Some h" and he: "has_entries lv ss"
    unfolding has_entries_Cons by (elim exE conjE)
  from d(1,2) obtain temp where
    g1: "generate_random_walk_value (fst (draws e x)) x ''temp'' lv =
           Inr (temp, lv(x \<mapsto> d(''temp'' \<mapsto> temp)))"
    by (rule generate_total)
  let ?lv1 = "lv(x \<mapsto> d(''temp'' \<mapsto> temp))"
  let ?d1 = "d(''temp'' \<mapsto> temp)"
  have d1: "?lv1 x = Some ?d1" "?d1 ''humidity'' = Some h"
    using d(3) by simp_all
  from d1 obtain hum where
    g2: "generate_random_walk_value (snd (draws e x)) x ''humidity'' ?lv1 =
           Inr (hum, ?lv1(x \<mapsto> ?d1(''humidity'' \<mapsto> hum)))"
    by (rule generate_total)
  let ?lv2 = "?lv1(x \<mapsto> ?d1(''humidity'' \<mapsto> hum))"
  let ?row = "\<lparr>timestamp = ts, sensor_id = x, temperature = temp, humidity = hum\<rparr>"
  from Cons.prems(2) have nf: "\<not> insert_fault e x" and f: "\<forall>s \<in> set ss. \<not> insert_fault e s"
    by simp_all
  have h2: "has_entries ?lv2 ss"
    using generate_preserves_has_entries [OF g2 generate_preserves_has_entries [OF g1 he]] .
  show ?case
  proof (cases "key_stored ts x tbl")
    case True
    with nf have "execute_insert (insert_fault e x) ?row tbl = Inl UniqueConstraintFailed"
      by (simp add: execute_insert_cases)
    then have "insert_sensors ts e (x # ss) lv tbl = (?lv2, Inl UniqueConstraintFailed)"
      by (simp only: insert_sensors.simps g1 g2 sum.case prod.case)
    with Cons.prems(3) show ?thesis by simp
  next
    case False
    with nf have i: "execute_insert (insert_fault e x) ?row tbl = Inr (tbl @ [?row])"
      by (simp add: execute_insert_cases)
    have "insert_sensors ts e (x # ss) lv tbl = insert_sensors ts e ss ?lv2 (tbl @ [?row])"
      by (simp only: insert_sensors.simps g1 g2 i sum.case prod.case)
    with Cons.prems(3) have "insert_sensors ts e ss ?lv2 (tbl @ [?row]) = (lv', Inl err)"
      by simp
    from Cons.IH [OF h2 f this] show ?thesis .
  qed
qed

lemma try_insert_Inl:
  assumes "insert_sensors (time_insert e) e SENSORS (last_values st) (metrics st) = (lv, Inl err)"
  shows "try_insert e st =
           st\<lparr>last_values := lv,
              stdout := stdout st @
                (if \<not> unique_constraint_failed_in_str err then [Error_inserting err] else [])\<rparr>"
  using assms by (simp add: try_insert_def Let_def)

lemma try_insert_Inr:
  assumes "insert_sensors (time_insert e) e SENSORS (last_values st) (metrics st) = (lv, Inr tbl)"
  shows "try_insert e st =
           st\<lparr>last_values := lv, metrics := tbl, stdout := stdout st @ [Inserted_metrics]\<rparr>"
  using assms by (simp add: try_insert_def Let_def)

lemma clean_old_data_subset:
  "set (metrics (clean_old_data now fault minutes st)) \<subseteq> set (metrics st)"
  by (auto simp: clean_old_data_def execute_delete_def Let_def)

lemma clean_old_data_keeps:
  assumes "\<forall>r \<in> set (metrics st). now - 3600 \<le> timestamp r"
  shows "metrics (clean_old_data now fault 60 st) = metrics st"
    and "last_values (clean_old_data now fault 60 st) = last_values st"
proof -
  from assms have "filter (\<lambda>r. \<not> timestamp r < now - 60 * 60) (metrics st) = metrics st"
    by (simp add: filter_id_conv not_less)
  then show "metrics (clean_old_data now fault 60 st) = metrics st"
    by (simp add: clean_old_data_def execute_delete_def Let_def)
  show "last_values (clean_old_data now fault 60 st) = last_values st"
    by (simp add: clean_old_data_def execute_delete_def Let_def)
qed

lemma failed_try_insert:
  assumes "s \<in> set SENSORS"
    and "insert_fault e s \<or> key_stored (time_insert e) s (metrics st)"
  shows "\<exists>lv err. try_insert e st =
            st\<lparr>last_values := lv,
               stdout := stdout st @
                 (if \<not> unique_constraint_failed_in_str err then [Error_inserting err] else [])\<rparr>"
proof -
  from insert_sensors_fails [OF assms, of "last_values st"] obtain lv err where
    f: "insert_sensors (time_insert e) e SENSORS (last_values st) (metrics st) = (lv, Inl err)"
    by (elim exE)
  have "try_insert e st =
            st\<lparr>last_values := lv,
               stdout := stdout st @
                 (if \<not> unique_constraint_failed_in_str err then [Error_inserting err] else [])\<rparr>"
    using f by (rule try_insert_Inl)
  then show ?thesis by (intro exI)
qed

lemma failed_try_insert_metrics:
  assumes "s \<in> set SENSORS"
    and "insert_fault e s \<or> key_stored (time_insert e) s (metrics st)"
  shows "metrics (try_insert e st) = metrics st"
proof -
  from failed_try_insert [OF assms] obtain lv err where
    t: "try_insert e st =
            st\<lparr>last_values := lv,
               stdout := stdout st @
                 (if \<not> unique_constraint_failed_in_str err then [Error_inserting err] else [])\<rparr>"
    by (elim exE)
  show ?thesis unfolding t by simp
qed

lemma has_entries_LAST_VALUES: "has_entries LAST_VALUES SENSORS"
  by (simp add: has_entries_def LAST_VALUES_def SENSORS_def)

lemma filter_same_key_fresh:
  assumes "\<not> key_stored (timestamp r2) (sensor_id r2) tbl"
  shows "filter (same_key r2) tbl = []"
proof -
  have "same_key r2 = (\<lambda>r. timestamp r = timestamp r2 \<and> sensor_id r = sensor_id r2)"
    by (auto simp: same_key_def fun_eq_iff)
  with assms show ?thesis
    by (simp add: key_stored_def list_ex_iff filter_empty_conv)
qed

lemma duplicate_tick_silent:
  assumes "has_entries (last_values st) SENSORS"
    and "\<forall>s \<in> set SENSORS. \<not> insert_fault e s"
    and "s \<in> set SENSORS"
    and "key_stored (time_insert e) s (metrics st)"
  shows "metrics (try_insert e st) = metrics st \<and> stdout (try_insert e st) = stdout st"
proof -
  from assms(4) have "insert_fault e s \<or> key_stored (time_insert e) s (metrics st)"
    by (rule disjI2)
  from insert_sensors_fails [OF assms(3) this, of "last_values st"] obtain lv err where
    f: "insert_sensors (time_insert e) e SENSORS (last_values st) (metrics st) = (lv, Inl err)"
    by (elim exE)
  have u: "err = UniqueConstraintFailed"
    using assms(1,2) f by (rule insert_sensors_fail_unique)
  show ?thesis
    unfolding try_insert_Inl [OF f] u by simp
qed

text \<open>
  C3. A reading whose key is new is appended; a second reading with the same timestamp
  and sensor is rejected with the violation of the key constraint, and the table keeps
  exactly one row with this key, the first. In a tick that meets a stored key with no
  fault of the engine the error is the violation, which the handler does not print:
  the table and the output are left as they were, and the tick returns.
\<close>

theorem duplicate_insert_rejected_silently:
  assumes "\<not> key_stored (timestamp r1) (sensor_id r1) tbl"
    and "same_key r2 r1"
    and "has_entries (last_values st) SENSORS"
    and "\<forall>s \<in> set SENSORS. \<not> insert_fault e s"
    and "s \<in> set SENSORS"
    and "key_stored (time_insert e) s (metrics st)"
  shows "execute_insert False r1 tbl = Inr (tbl @ [r1]) \<and>
         execute_insert False r2 (tbl @ [r1]) = Inl UniqueConstraintFailed \<and>
         filter (same_key r2) (tbl @ [r1]) = [r1] \<and>
         unique_constraint_failed_in_str UniqueConstraintFailed \<and>
         metrics (try_insert e st) = metrics st \<and>
         stdout (try_insert e st) = stdout st"
proof -
  from assms(2) have k: "timestamp r2 = timestamp r1" "sensor_id r2 = sensor_id r1"
    by (simp_all add: same_key_def)
  have a: "execute_insert False r1 tbl = Inr (tbl @ [r1])"
    using assms(1) by (simp add: execute_insert_cases)
  have "key_stored (timestamp r2) (sensor_id r2) (tbl @ [r1])"
    using k by (simp add: key_stored_def)
  then have b: "execute_insert False r2 (tbl @ [r1]) = Inl UniqueConstraintFailed"
    by (simp add: execute_insert_cases)
  from assms(1) k have "\<not> key_stored (timestamp r2) (sensor_id r2) tbl" by simp
  then have "filter (same_key r2) tbl = []" by (rule filter_same_key_fresh)
  then have c: "filter (same_key r2) (tbl @ [r1]) = [r1]"
    using assms(2) by simp
  have d: "unique_constraint_failed_in_str UniqueConstraintFailed" by simp
  note t = duplicate_tick_silent [OF assms(3-6)]
  from a b c d t show ?thesis by (elim conjE) (intro conjI)
qed

theorem duplicate_insert_rejected_silently_witness:
  "execute_insert False
      \<lparr>timestamp = 1706745600, sensor_id = ''THS No. 2'', temperature = 22, humidity = 58\<rparr> [] =
     Inr [\<lparr>timestamp = 1706745600, sensor_id = ''THS No. 2'', temperature = 22, humidity = 58\<rparr>] \<and>
   execute_insert False
      \<lparr>timestamp = 1706745600, sensor_id = ''THS No. 2'', temperature = 21, humidity = 50\<rparr>
      [\<lparr>timestamp = 1706745600, sensor_id = ''THS No. 2'', temperature = 22, humidity = 58\<rparr>] =
     Inl UniqueConstraintFailed \<and>
   metrics (try_insert
      \<lparr>time_insert = 1706745600, time_clean = 1706745600, draws = (\<lambda>s. (4, 0)),
       insert_fault = (\<lambda>s. False), delete_fault = False\<rparr>
      (initial_state\<lparr>metrics :=
         [\<lparr>timestamp = 1706745600, sensor_id = ''THS No. 2'', temperature = 22, humidity = 58\<rparr>]\<rparr>)) =
     [\<lparr>timestamp = 1706745600, sensor_id = ''THS No. 2'', temperature = 22, humidity = 58\<rparr>] \<and>
   stdout (try_insert
      \<lparr>time_insert = 1706745600, time_clean = 1706745600, draws = (\<lambda>s. (4, 0)),
       insert_fault = (\<lambda>s. False), delete_fault = False\<rparr>
      (initial_state\<lparr>metrics :=
         [\<lparr>timestamp = 1706745600, sensor_id = ''THS No. 2'', temperature = 22, humidity = 58\<rparr>]\<rparr>)) = []"
proof -
  let ?r1 = "\<lparr>timestamp = 1706745600, sensor_id = ''THS No. 2'', temperature = 22, humidity = 58 :: real\<rparr>"
  let ?r2 = "\<lparr>timestamp = 1706745600, sensor_id = ''THS No. 2'', temperature = 21, humidity = 50 :: real\<rparr>"
  let ?e = "\<lparr>time_insert = 1706745600, time_clean = 1706745600, draws = (\<lambda>s. (4 :: nat, 0 :: nat)),
       insert_fault = (\<lambda>s. False), delete_fault = False\<rparr>"
  let ?st = "initial_state\<lparr>metrics := [?r1]\<rparr>"
  have h1: "\<not> key_stored (timestamp ?r1) (sensor_id ?r1) []" by (simp add: key_stored_def)
  have h2: "same_key ?r2 ?r1" by (simp add: same_key_def)
  have h3: "has_entries (last_values ?st) SENSORS"
    by (simp add: initial_state_def has_entries_LAST_VALUES)
  have h4: "\<forall>s \<in> set SENSORS. \<not> insert_fault ?e s" by simp
  have h5: "''THS No. 2'' \<in> set SENSORS" by (simp add: SENSORS_def)
  have h6: "key_stored (time_insert ?e) ''THS No. 2'' (metrics ?st)" by (simp add: key_stored_def)
  note w = duplicate_insert_rejected_silently [OF h1 h2 h3 h4 h5 h6]
  from w have a: "execute_insert False ?r1 [] = Inr [?r1]"
    by (simp only: append_Nil)
  from w have b: "execute_insert False ?r2 [?r1] = Inl UniqueConstraintFailed"
    by (simp only: append_Nil)
  from w have "metrics (try_insert ?e ?st) = metrics ?st"
    by (elim conjE)
  then have c: "metrics (try_insert ?e ?st) = [?r1]"
    by simp
  from w have "stdout (try_insert ?e ?st) = stdout ?st"
    by (elim conjE)
  then have d: "stdout (try_insert ?e ?st) = []"
    by (simp add: initial_state_def)
  from a b c d show ?thesis by (intro conjI)
qed

lemma rows_timestamp:
  assumes "map timestamp rows = replicate n t"
  shows "\<forall>r \<in> set rows. timestamp r = t"
proof
  fix r assume "r \<in> set rows"
  then have "timestamp r \<in> set (map timestamp rows)" by simp
  with assms show "timestamp r = t" by (simp split: if_splits)
qed

lemma distinct_SENSORS: "distinct SENSORS"
  by (simp add: SENSORS_def)

lemma length_SENSORS: "length SENSORS = 3"
  by (simp add: SENSORS_def)

lemma try_insert_ok:
  assumes h: "has_entries (last_values st) SENSORS"
    and nf: "\<forall>s \<in> set SENSORS. \<not> insert_fault e s"
    and fresh: "\<forall>r \<in> set (metrics st). timestamp r \<noteq> time_insert e"
  obtains rows where
    "metrics (try_insert e st) = metrics st @ rows"
    "map sensor_id rows = SENSORS"
    "map timestamp rows = replicate 3 (time_insert e)"
    "has_entries (last_values (try_insert e st)) SENSORS"
proof -
  from fresh have nk: "\<forall>s \<in> set SENSORS. \<not> key_stored (time_insert e) s (metrics st)"
    by (simp add: key_stored_def list_ex_iff)
  from insert_sensors_ok [OF h distinct_SENSORS nf nk h] obtain lv' tbl' where
    i: "insert_sensors (time_insert e) e SENSORS (last_values st) (metrics st) = (lv', Inr tbl')"
    and h': "has_entries lv' SENSORS"
    by (elim exE conjE)
  from insert_sensors_appends [OF i] obtain rows where
    r: "tbl' = metrics st @ rows" "map sensor_id rows = SENSORS"
       "map timestamp rows = replicate (length SENSORS) (time_insert e)"
    by (elim exE conjE)
  note t = try_insert_Inr [OF i]
  have a: "metrics (try_insert e st) = metrics st @ rows"
    unfolding t using r(1) by simp
  have c: "map timestamp rows = replicate 3 (time_insert e)"
    using r(3) by (simp only: length_SENSORS)
  have d: "has_entries (last_values (try_insert e st)) SENSORS"
    unfolding t using h' by simp
  show ?thesis by (rule that [OF a r(2) c d])
qed

lemma clean_old_data_last_values:
  "last_values (clean_old_data now fault minutes st) = last_values st"
  by (simp add: clean_old_data_def execute_delete_def Let_def)

lemma clean_old_data_filter:
  "metrics (clean_old_data now False 60 st) =
     filter (\<lambda>r. \<not> timestamp r < now - 3600) (metrics st)"
  by (simp add: clean_old_data_def execute_delete_def Let_def)

lemma tick_appends:
  assumes h: "has_entries (last_values st) SENSORS"
    and nf: "\<forall>s \<in> set SENSORS. \<not> insert_fault e s"
    and fresh: "\<forall>r \<in> set (metrics st). timestamp r \<noteq> time_insert e"
    and keep: "\<forall>r \<in> set (metrics st). time_clean e - 3600 \<le> timestamp r"
    and now: "time_clean e - 3600 \<le> time_insert e"
  obtains rows where
    "metrics (generate_and_insert_metric e st) = metrics st @ rows"
    "map sensor_id rows = SENSORS"
    "map timestamp rows = replicate 3 (time_insert e)"
    "has_entries (last_values (generate_and_insert_metric e st)) SENSORS"
proof -
  from h nf fresh obtain rows where
    r: "metrics (try_insert e st) = metrics st @ rows"
       "map sensor_id rows = SENSORS"
       "map timestamp rows = replicate 3 (time_insert e)"
       "has_entries (last_values (try_insert e st)) SENSORS"
    by (rule try_insert_ok)
  from rows_timestamp [OF r(3)] now have "\<forall>r \<in> set rows. time_clean e - 3600 \<le> timestamp r"
    by simp
  with keep have k: "\<forall>r \<in> set (metrics (try_insert e st)). time_clean e - 3600 \<le> timestamp r"
    unfolding r(1) by auto
  have a: "metrics (generate_and_insert_metric e st) = metrics st @ rows"
    unfolding generate_and_insert_metric_def clean_old_data_keeps(1) [OF k] by (rule r(1))
  have d: "has_entries (last_values (generate_and_insert_metric e st)) SENSORS"
    unfolding generate_and_insert_metric_def clean_old_data_last_values by (rule r(4))
  show ?thesis by (rule that [OF a r(2,3) d])
qed

lemma tick_replaces:
  assumes h: "has_entries (last_values st) SENSORS"
    and nf: "\<forall>s \<in> set SENSORS. \<not> insert_fault e s"
    and nd: "\<not> delete_fault e"
    and old: "\<forall>r \<in> set (metrics st). timestamp r < time_clean e - 3600"
    and now: "time_clean e - 3600 \<le> time_insert e"
  obtains rows where
    "metrics (generate_and_insert_metric e st) = rows"
    "map sensor_id rows = SENSORS"
    "map timestamp rows = replicate 3 (time_insert e)"
    "has_entries (last_values (generate_and_insert_metric e st)) SENSORS"
proof -
  from old now have fresh: "\<forall>r \<in> set (metrics st). timestamp r \<noteq> time_insert e"
    by auto
  from h nf fresh obtain rows where
    r: "metrics (try_insert e st) = metrics st @ rows"
       "map sensor_id rows = SENSORS"
       "map timestamp rows = replicate 3 (time_insert e)"
       "has_entries (last_values (try_insert e st)) SENSORS"
    by (rule try_insert_ok)
  from old have f1: "filter (\<lambda>r. \<not> timestamp r < time_clean e - 3600) (metrics st) = []"
    by (simp add: filter_empty_conv)
  from now have f2: "filter (\<lambda>r. \<not> timestamp r < time_clean e - 3600) rows = rows"
    using rows_timestamp [OF r(3)] by (simp add: filter_id_conv)
  from nd have "metrics (generate_and_insert_metric e st) =
      filter (\<lambda>r. \<not> timestamp r < time_clean e - 3600) (metrics (try_insert e st))"
    by (simp add: generate_and_insert_metric_def clean_old_data_filter)
  then have a: "metrics (generate_and_insert_metric e st) = rows"
    unfolding r(1) filter_append f1 f2 by simp
  have d: "has_entries (last_values (generate_and_insert_metric e st)) SENSORS"
    unfolding generate_and_insert_metric_def clean_old_data_last_values by (rule r(4))
  show ?thesis by (rule that [OF a r(2,3) d])
qed

lemma rows_filter_timestamp:
  assumes "map timestamp rows = replicate n t"
  shows "filter (\<lambda>r. timestamp r = t') rows = (if t = t' then rows else [])"
  using rows_timestamp [OF assms] by (simp add: filter_id_conv filter_empty_conv)

lemma rows_length:
  assumes "map sensor_id rows = SENSORS"
  shows "length rows = 3"
proof -
  have "length rows = length (map sensor_id rows)" by simp
  then show ?thesis unfolding assms by (simp add: length_SENSORS)
qed

lemma rows_timestamp_image:
  assumes "map timestamp rows = replicate 3 t"
  shows "timestamp ` set rows = {t}"
proof -
  have "timestamp ` set rows = set (map timestamp rows)" by simp
  then show ?thesis unfolding assms by simp
qed

lemma try_insert_rows:
  "\<exists>rows. metrics (try_insert e st) = metrics st @ rows \<and>
          map timestamp rows = replicate (length rows) (time_insert e)"
proof (cases "insert_sensors (time_insert e) e SENSORS (last_values st) (metrics st)")
  case (Pair lv res)
  show ?thesis
  proof (cases res)
    case (Inl err)
    with Pair have "metrics (try_insert e st) = metrics st @ []"
      by (simp add: try_insert_Inl)
    moreover have "map timestamp [] = replicate (length ([] :: reading list)) (time_insert e)"
      by simp
    ultimately show ?thesis by (intro exI conjI)
  next
    case (Inr tbl')
    with Pair have i: "insert_sensors (time_insert e) e SENSORS (last_values st) (metrics st) = (lv, Inr tbl')"
      by simp
    from insert_sensors_appends [OF i] obtain rows where
      r: "tbl' = metrics st @ rows" "map sensor_id rows = SENSORS"
         "map timestamp rows = replicate (length SENSORS) (time_insert e)"
      by (elim exE conjE)
    have a: "metrics (try_insert e st) = metrics st @ rows"
      unfolding try_insert_Inr [OF i] using r(1) by simp
    have "length rows = length SENSORS"
      using arg_cong [OF r(2), of length] by simp
    with r(3) have b: "map timestamp rows = replicate (length rows) (time_insert e)"
      by simp
    from a b show ?thesis by (intro exI conjI)
  qed
qed

lemma three_ticks_rows:
  assumes nf: "\<forall>e \<in> set [e1, e2, e3]. \<forall>s \<in> set SENSORS. \<not> insert_fault e s"
    and dist: "distinct [time_insert e1, time_insert e2, time_insert e3]"
    and keep: "\<forall>e \<in> set [e1, e2, e3]. \<forall>e' \<in> set [e1, e2, e3].
                 time_clean e - 3600 \<le> time_insert e'"
  obtains rows1 rows2 rows3 where
    "metrics (run [e1, e2, e3] initial_state) = rows1 @ rows2 @ rows3"
    "map sensor_id rows1 = SENSORS" "map timestamp rows1 = replicate 3 (time_insert e1)"
    "map sensor_id rows2 = SENSORS" "map timestamp rows2 = replicate 3 (time_insert e2)"
    "map sensor_id rows3 = SENSORS" "map timestamp rows3 = replicate 3 (time_insert e3)"
proof -
  let ?st1 = "generate_and_insert_metric e1 initial_state"
  let ?st2 = "generate_and_insert_metric e2 ?st1"
  let ?st3 = "generate_and_insert_metric e3 ?st2"
  from nf have nf1: "\<forall>s \<in> set SENSORS. \<not> insert_fault e1 s"
    and nf2: "\<forall>s \<in> set SENSORS. \<not> insert_fault e2 s"
    and nf3: "\<forall>s \<in> set SENSORS. \<not> insert_fault e3 s"
    by simp_all
  from keep have k1: "time_clean e1 - 3600 \<le> time_insert e1"
    and k2: "time_clean e2 - 3600 \<le> time_insert e1" "time_clean e2 - 3600 \<le> time_insert e2"
    and k3: "time_clean e3 - 3600 \<le> time_insert e1" "time_clean e3 - 3600 \<le> time_insert e2"
            "time_clean e3 - 3600 \<le> time_insert e3"
    by simp_all
  from dist have d: "time_insert e1 \<noteq> time_insert e2" "time_insert e1 \<noteq> time_insert e3"
    "time_insert e2 \<noteq> time_insert e3"
    by simp_all
  have h0: "has_entries (last_values initial_state) SENSORS"
    by (simp add: initial_state_def has_entries_LAST_VALUES)
  have m0: "metrics initial_state = []" by (simp add: initial_state_def)
  have f0: "\<forall>r \<in> set (metrics initial_state). timestamp r \<noteq> time_insert e1"
    and c0: "\<forall>r \<in> set (metrics initial_state). time_clean e1 - 3600 \<le> timestamp r"
    unfolding m0 by simp_all
  from h0 nf1 f0 c0 k1 obtain rows1 where
    r1: "metrics ?st1 = metrics initial_state @ rows1" "map sensor_id rows1 = SENSORS"
        "map timestamp rows1 = replicate 3 (time_insert e1)"
        "has_entries (last_values ?st1) SENSORS"
    by (rule tick_appends)
  from r1(1) have s1: "metrics ?st1 = rows1" unfolding m0 by simp
  note t1 = rows_timestamp [OF r1(3)]
  from t1 d(1) have f1: "\<forall>r \<in> set (metrics ?st1). timestamp r \<noteq> time_insert e2"
    unfolding s1 by simp
  from t1 k2(1) have c1: "\<forall>r \<in> set (metrics ?st1). time_clean e2 - 3600 \<le> timestamp r"
    unfolding s1 by simp
  from r1(4) nf2 f1 c1 k2(2) obtain rows2 where
    r2: "metrics ?st2 = metrics ?st1 @ rows2" "map sensor_id rows2 = SENSORS"
        "map timestamp rows2 = replicate 3 (time_insert e2)"
        "has_entries (last_values ?st2) SENSORS"
    by (rule tick_appends)
  from r2(1) have s2: "metrics ?st2 = rows1 @ rows2" unfolding s1 .
  note t2 = rows_timestamp [OF r2(3)]
  from t1 t2 d(2,3) have f2: "\<forall>r \<in> set (metrics ?st2). timestamp r \<noteq> time_insert e3"
    unfolding s2 by auto
  from t1 t2 k3(1,2) have c2: "\<forall>r \<in> set (metrics ?st2). time_clean e3 - 3600 \<le> timestamp r"
    unfolding s2 by auto
  from r2(4) nf3 f2 c2 k3(3) obtain rows3 where
    r3: "metrics ?st3 = metrics ?st2 @ rows3" "map sensor_id rows3 = SENSORS"
        "map timestamp rows3 = replicate 3 (time_insert e3)"
        "has_entries (last_values ?st3) SENSORS"
    by (rule tick_appends)
  from r3(1) have "metrics ?st3 = rows1 @ rows2 @ rows3" unfolding s2 by simp
  then have a: "metrics (run [e1, e2, e3] initial_state) = rows1 @ rows2 @ rows3"
    by simp
  show ?thesis by (rule that [OF a r1(2,3) r2(2,3) r3(2,3)])
qed

text \<open>
  C8, as the specification has it: three ticks at distinct seconds leave nine rows.
  Every tick ends with the prune of the rows older than sixty minutes. With the clock
  read 4000 seconds later at each tick, from the empty table and with no fault, the rows
  of the first two ticks are pruned and three rows are left, all of the last tick.
\<close>

theorem three_ticks_beyond_retention_counterexample:
  "length (metrics (run
       [\<lparr>time_insert = 1706745600, time_clean = 1706745600, draws = (\<lambda>s. (4, 0)),
        insert_fault = (\<lambda>s. False), delete_fault = False\<rparr>,
        \<lparr>time_insert = 1706749600, time_clean = 1706749600, draws = (\<lambda>s. (4, 0)),
        insert_fault = (\<lambda>s. False), delete_fault = False\<rparr>,
        \<lparr>time_insert = 1706753600, time_clean = 1706753600, draws = (\<lambda>s. (4, 0)),
        insert_fault = (\<lambda>s. False), delete_fault = False\<rparr>]
       initial_state)) = 3 \<and>
   timestamp ` set (metrics (run
       [\<lparr>time_insert = 1706745600, time_clean = 1706745600, draws = (\<lambda>s. (4, 0)),
        insert_fault = (\<lambda>s. False), delete_fault = False\<rparr>,
        \<lparr>time_insert = 1706749600, time_clean = 1706749600, draws = (\<lambda>s. (4, 0)),
        insert_fault = (\<lambda>s. False), delete_fault = False\<rparr>,
        \<lparr>time_insert = 1706753600, time_clean = 1706753600, draws = (\<lambda>s. (4, 0)),
        insert_fault = (\<lambda>s. False), delete_fault = False\<rparr>]
       initial_state)) = {1706753600}"
proof -
  let ?e1 = "\<lparr>time_insert = 1706745600, time_clean = 1706745600, draws = (\<lambda>s. (4 :: nat, 0 :: nat)),
        insert_fault = (\<lambda>s. False), delete_fault = False\<rparr>"
  let ?e2 = "\<lparr>time_insert = 1706749600, time_clean = 1706749600, draws = (\<lambda>s. (4 :: nat, 0 :: nat)),
        insert_fault = (\<lambda>s. False), delete_fault = False\<rparr>"
  let ?e3 = "\<lparr>time_insert = 1706753600, time_clean = 1706753600, draws = (\<lambda>s. (4 :: nat, 0 :: nat)),
        insert_fault = (\<lambda>s. False), delete_fault = False\<rparr>"
  let ?st1 = "generate_and_insert_metric ?e1 initial_state"
  let ?st2 = "generate_and_insert_metric ?e2 ?st1"
  let ?st3 = "generate_and_insert_metric ?e3 ?st2"
  have nf: "\<forall>s \<in> set SENSORS. \<not> insert_fault ?e1 s"
    "\<forall>s \<in> set SENSORS. \<not> insert_fault ?e2 s"
    "\<forall>s \<in> set SENSORS. \<not> insert_fault ?e3 s"
    by simp_all
  have nd: "\<not> delete_fault ?e2" "\<not> delete_fault ?e3" by simp_all
  have k: "time_clean ?e1 - 3600 \<le> time_insert ?e1" "time_clean ?e2 - 3600 \<le> time_insert ?e2"
    "time_clean ?e3 - 3600 \<le> time_insert ?e3"
    by simp_all
  have h0: "has_entries (last_values initial_state) SENSORS"
    by (simp add: initial_state_def has_entries_LAST_VALUES)
  have m0: "metrics initial_state = []" by (simp add: initial_state_def)
  have f0: "\<forall>r \<in> set (metrics initial_state). timestamp r \<noteq> time_insert ?e1"
    and c0: "\<forall>r \<in> set (metrics initial_state). time_clean ?e1 - 3600 \<le> timestamp r"
    unfolding m0 by simp_all
  from h0 nf(1) f0 c0 k(1) obtain rows1 where
    r1: "metrics ?st1 = metrics initial_state @ rows1"
        "map timestamp rows1 = replicate 3 (time_insert ?e1)"
        "has_entries (last_values ?st1) SENSORS"
    by (rule tick_appends)
  from r1(1) have s1: "metrics ?st1 = rows1" unfolding m0 by simp
  from rows_timestamp [OF r1(2)]
  have o1: "\<forall>r \<in> set (metrics ?st1). timestamp r < time_clean ?e2 - 3600"
    unfolding s1 by simp
  from r1(3) nf(2) nd(1) o1 k(2) obtain rows2 where
    r2: "metrics ?st2 = rows2"
        "map timestamp rows2 = replicate 3 (time_insert ?e2)"
        "has_entries (last_values ?st2) SENSORS"
    by (rule tick_replaces)
  from rows_timestamp [OF r2(2)]
  have o2: "\<forall>r \<in> set (metrics ?st2). timestamp r < time_clean ?e3 - 3600"
    unfolding r2(1) by simp
  from r2(3) nf(3) nd(2) o2 k(3) obtain rows3 where
    r3: "metrics ?st3 = rows3" "map sensor_id rows3 = SENSORS"
        "map timestamp rows3 = replicate 3 (time_insert ?e3)"
    by (rule tick_replaces)
  have m: "metrics (run [?e1, ?e2, ?e3] initial_state) = rows3"
    using r3(1) by simp
  have a: "length (metrics (run [?e1, ?e2, ?e3] initial_state)) = 3"
    unfolding m by (rule rows_length [OF r3(2)])
  have b: "timestamp ` set (metrics (run [?e1, ?e2, ?e3] initial_state)) = {1706753600}"
    unfolding m using rows_timestamp_image [OF r3(3)] by simp
  from a b show ?thesis by (rule conjI)
qed

text \<open>
  C8, amended. The timestamp is read once a tick: the rows a tick adds all carry it.
  Three ticks from the initial state, with no insert failing, at distinct seconds, and
  with every timestamp within the sixty minutes kept by every prune, leave nine rows
  with three distinct timestamps, each of them on one row a sensor, in the order of
  the sensors.
\<close>

theorem three_ticks_nine_rows:
  assumes nf: "\<forall>e \<in> set [e1, e2, e3]. \<forall>s \<in> set SENSORS. \<not> insert_fault e s"
    and dist: "distinct [time_insert e1, time_insert e2, time_insert e3]"
    and keep: "\<forall>e \<in> set [e1, e2, e3]. \<forall>e' \<in> set [e1, e2, e3].
                 time_clean e - 3600 \<le> time_insert e'"
  shows "length (metrics (run [e1, e2, e3] initial_state)) = 9 \<and>
         timestamp ` set (metrics (run [e1, e2, e3] initial_state)) =
           {time_insert e1, time_insert e2, time_insert e3} \<and>
         card (timestamp ` set (metrics (run [e1, e2, e3] initial_state))) = 3 \<and>
         (\<forall>e \<in> set [e1, e2, e3].
            map sensor_id (filter (\<lambda>r. timestamp r = time_insert e)
                             (metrics (run [e1, e2, e3] initial_state))) = SENSORS) \<and>
         (\<exists>rows. metrics (try_insert e st) = metrics st @ rows \<and>
                 map timestamp rows = replicate (length rows) (time_insert e))"
proof -
  from nf dist keep obtain rows1 rows2 rows3 where
    m: "metrics (run [e1, e2, e3] initial_state) = rows1 @ rows2 @ rows3"
    and r1: "map sensor_id rows1 = SENSORS" "map timestamp rows1 = replicate 3 (time_insert e1)"
    and r2: "map sensor_id rows2 = SENSORS" "map timestamp rows2 = replicate 3 (time_insert e2)"
    and r3: "map sensor_id rows3 = SENSORS" "map timestamp rows3 = replicate 3 (time_insert e3)"
    by (rule three_ticks_rows)
  from dist have d: "time_insert e1 \<noteq> time_insert e2" "time_insert e1 \<noteq> time_insert e3"
    "time_insert e2 \<noteq> time_insert e3"
    by simp_all
  have a: "length (metrics (run [e1, e2, e3] initial_state)) = 9"
    unfolding m by (simp add: rows_length [OF r1(1)] rows_length [OF r2(1)] rows_length [OF r3(1)])
  have b: "timestamp ` set (metrics (run [e1, e2, e3] initial_state)) =
           {time_insert e1, time_insert e2, time_insert e3}"
    unfolding m
    by (simp only: set_append image_Un rows_timestamp_image [OF r1(2)]
          rows_timestamp_image [OF r2(2)] rows_timestamp_image [OF r3(2)]) blast
  have c: "card (timestamp ` set (metrics (run [e1, e2, e3] initial_state))) = 3"
    unfolding b using d by simp
  have f1: "map sensor_id (filter (\<lambda>r. timestamp r = time_insert e1)
                             (metrics (run [e1, e2, e3] initial_state))) = SENSORS"
    unfolding m using d r1(1)
    by (simp add: rows_filter_timestamp [OF r1(2)] rows_filter_timestamp [OF r2(2)]
          rows_filter_timestamp [OF r3(2)])
  have f2: "map sensor_id (filter (\<lambda>r. timestamp r = time_insert e2)
                             (metrics (run [e1, e2, e3] initial_state))) = SENSORS"
    unfolding m using d r2(1)
    by (simp add: rows_filter_timestamp [OF r1(2)] rows_filter_timestamp [OF r2(2)]
          rows_filter_timestamp [OF r3(2)])
  have f3: "map sensor_id (filter (\<lambda>r. timestamp r = time_insert e3)
                             (metrics (run [e1, e2, e3] initial_state))) = SENSORS"
    unfolding m using d r3(1)
    by (simp add: rows_filter_timestamp [OF r1(2)] rows_filter_timestamp [OF r2(2)]
          rows_filter_timestamp [OF r3(2)])
  from f1 f2 f3 have f: "\<forall>e \<in> set [e1, e2, e3].
            map sensor_id (filter (\<lambda>r. timestamp r = time_insert e)
                             (metrics (run [e1, e2, e3] initial_state))) = SENSORS"
    by simp
  note g = try_insert_rows [of e st]
  from a b c f g show ?thesis by (intro conjI)
qed

theorem three_ticks_nine_rows_witness:
  "length (metrics (run
       [\<lparr>time_insert = 1706745600, time_clean = 1706745600, draws = (\<lambda>s. (4, 0)),
        insert_fault = (\<lambda>s. False), delete_fault = False\<rparr>,
        \<lparr>time_insert = 1706745601, time_clean = 1706745601, draws = (\<lambda>s. (4, 0)),
        insert_fault = (\<lambda>s. False), delete_fault = False\<rparr>,
        \<lparr>time_insert = 1706745602, time_clean = 1706745602, draws = (\<lambda>s. (4, 0)),
        insert_fault = (\<lambda>s. False), delete_fault = False\<rparr>]
       initial_state)) = 9 \<and>
   card (timestamp ` set (metrics (run
       [\<lparr>time_insert = 1706745600, time_clean = 1706745600, draws = (\<lambda>s. (4, 0)),
        insert_fault = (\<lambda>s. False), delete_fault = False\<rparr>,
        \<lparr>time_insert = 1706745601, time_clean = 1706745601, draws = (\<lambda>s. (4, 0)),
        insert_fault = (\<lambda>s. False), delete_fault = False\<rparr>,
        \<lparr>time_insert = 1706745602, time_clean = 1706745602, draws = (\<lambda>s. (4, 0)),
        insert_fault = (\<lambda>s. False), delete_fault = False\<rparr>]
       initial_state))) = 3"
proof -
  let ?e1 = "\<lparr>time_insert = 1706745600, time_clean = 1706745600, draws = (\<lambda>s. (4 :: nat, 0 :: nat)),
        insert_fault = (\<lambda>s. False), delete_fault = False\<rparr>"
  let ?e2 = "\<lparr>time_insert = 1706745601, time_clean = 1706745601, draws = (\<lambda>s. (4 :: nat, 0 :: nat)),
        insert_fault = (\<lambda>s. False), delete_fault = False\<rparr>"
  let ?e3 = "\<lparr>time_insert = 1706745602, time_clean = 1706745602, draws = (\<lambda>s. (4 :: nat, 0 :: nat)),
        insert_fault = (\<lambda>s. False), delete_fault = False\<rparr>"
  have h1: "\<forall>e \<in> set [?e1, ?e2, ?e3]. \<forall>s \<in> set SENSORS. \<not> insert_fault e s"
    by simp
  have h2: "distinct [time_insert ?e1, time_insert ?e2, time_insert ?e3]"
    by simp
  have h3: "\<forall>e \<in> set [?e1, ?e2, ?e3]. \<forall>e' \<in> set [?e1, ?e2, ?e3].
              time_clean e - 3600 \<le> time_insert e'"
    by simp
  note w = three_ticks_nine_rows [of ?e1 ?e2 ?e3 ?e1 initial_state, OF h1 h2 h3]
  from w have a: "length (metrics (run [?e1, ?e2, ?e3] initial_state)) = 9"
    by (elim conjE)
  from w have b: "card (timestamp ` set (metrics (run [?e1, ?e2, ?e3] initial_state))) = 3"
    by (elim conjE)
  from a b show ?thesis by (rule conjI)
qed

subsection \<open>A tick whose insert fails\<close>

lemma generate_step:
  assumes "lv x = Some d" and "d m = Some v"
  obtains c where "random_choice r CHANGES = Inr c"
    "generate_random_walk_value r x m lv =
       Inr (max (range_min m) (min (range_max m) (v + c)),
            lv(x \<mapsto> d(m \<mapsto> max (range_min m) (min (range_max m) (v + c)))))"
proof -
  from random_choice_CHANGES [of r] obtain c where c: "random_choice r CHANGES = Inr c"
    by (elim exE conjE)
  note g = generate_random_walk_value_Inr [of lv x d m v r c, OF assms c]
  show ?thesis by (rule that [OF c g])
qed

lemma insert_sensors_stops:
  assumes "distinct (pre @ [s])"
    and "has_entries lv (pre @ [s])"
    and "\<forall>x \<in> set pre. \<not> insert_fault e x \<and> \<not> key_stored ts x tbl"
    and "insert_fault e s \<or> key_stored ts s tbl"
  shows "\<exists>lv'. insert_sensors ts e (pre @ s # post) lv tbl =
           (lv', Inl (if insert_fault e s then OperationalError else UniqueConstraintFailed)) \<and>
         (\<forall>x. x \<notin> set (pre @ [s]) \<longrightarrow> lv' x = lv x) \<and>
         (\<forall>x \<in> set (pre @ [s]). \<exists>d t h c1 c2.
            lv x = Some d \<and> d ''temp'' = Some t \<and> d ''humidity'' = Some h \<and>
            random_choice (fst (draws e x)) CHANGES = Inr c1 \<and>
            random_choice (snd (draws e x)) CHANGES = Inr c2 \<and>
            lv' x = Some (d(''temp'' \<mapsto> max TEMP_MIN (min TEMP_MAX (t + c1)),
                            ''humidity'' \<mapsto> max HUMIDITY_MIN (min HUMIDITY_MAX (h + c2)))))"
  using assms
proof (induction pre arbitrary: lv tbl)
  case Nil
  from Nil.prems(2) obtain d t h where
    d: "lv s = Some d" "d ''temp'' = Some t" "d ''humidity'' = Some h"
    by (simp add: has_entries_Cons) (elim exE conjE)
  from d(1,2) obtain c1 where c1: "random_choice (fst (draws e s)) CHANGES = Inr c1"
    and g1: "generate_random_walk_value (fst (draws e s)) s ''temp'' lv =
       Inr (max (range_min ''temp'') (min (range_max ''temp'') (t + c1)),
            lv(s \<mapsto> d(''temp'' \<mapsto> max (range_min ''temp'') (min (range_max ''temp'') (t + c1)))))"
    by (rule generate_step)
  let ?w1 = "max (range_min ''temp'') (min (range_max ''temp'') (t + c1))"
  let ?d1 = "d(''temp'' \<mapsto> ?w1)"
  let ?lv1 = "lv(s \<mapsto> ?d1)"
  have d1: "?lv1 s = Some ?d1" "?d1 ''humidity'' = Some h" using d(3) by simp_all
  from d1 obtain c2 where c2: "random_choice (snd (draws e s)) CHANGES = Inr c2"
    and g2: "generate_random_walk_value (snd (draws e s)) s ''humidity'' ?lv1 =
       Inr (max (range_min ''humidity'') (min (range_max ''humidity'') (h + c2)),
            ?lv1(s \<mapsto> ?d1(''humidity'' \<mapsto> max (range_min ''humidity'') (min (range_max ''humidity'') (h + c2)))))"
    by (rule generate_step)
  let ?w2 = "max (range_min ''humidity'') (min (range_max ''humidity'') (h + c2))"
  let ?lv2 = "?lv1(s \<mapsto> ?d1(''humidity'' \<mapsto> ?w2))"
  let ?row = "\<lparr>timestamp = ts, sensor_id = s, temperature = ?w1, humidity = ?w2\<rparr>"
  let ?err = "if insert_fault e s then OperationalError else UniqueConstraintFailed"
  from Nil.prems(4) have i: "execute_insert (insert_fault e s) ?row tbl = Inl ?err"
    by (auto simp: execute_insert_cases)
  have a: "insert_sensors ts e ([] @ s # post) lv tbl = (?lv2, Inl ?err)"
    by (simp only: append_Nil insert_sensors.simps g1 g2 i sum.case prod.case)
  have b: "\<forall>x. x \<notin> set ([] @ [s]) \<longrightarrow> ?lv2 x = lv x" by simp
  have "?lv2 s = Some (d(''temp'' \<mapsto> max TEMP_MIN (min TEMP_MAX (t + c1)),
                            ''humidity'' \<mapsto> max HUMIDITY_MIN (min HUMIDITY_MAX (h + c2))))"
    by (simp add: range_min_def range_max_def)
  with d c1 c2 have "\<exists>d t h c1 c2.
            lv s = Some d \<and> d ''temp'' = Some t \<and> d ''humidity'' = Some h \<and>
            random_choice (fst (draws e s)) CHANGES = Inr c1 \<and>
            random_choice (snd (draws e s)) CHANGES = Inr c2 \<and>
            ?lv2 s = Some (d(''temp'' \<mapsto> max TEMP_MIN (min TEMP_MAX (t + c1)),
                            ''humidity'' \<mapsto> max HUMIDITY_MIN (min HUMIDITY_MAX (h + c2))))"
    by (intro exI conjI)
  then have c: "\<forall>x \<in> set ([] @ [s]). \<exists>d t h c1 c2.
            lv x = Some d \<and> d ''temp'' = Some t \<and> d ''humidity'' = Some h \<and>
            random_choice (fst (draws e x)) CHANGES = Inr c1 \<and>
            random_choice (snd (draws e x)) CHANGES = Inr c2 \<and>
            ?lv2 x = Some (d(''temp'' \<mapsto> max TEMP_MIN (min TEMP_MAX (t + c1)),
                            ''humidity'' \<mapsto> max HUMIDITY_MIN (min HUMIDITY_MAX (h + c2))))"
    by (simp only: append_Nil list.set ball_simps empty_iff insert_iff simp_thms)
  from a b c show ?case by (intro exI conjI)
next
  case (Cons a pre)
  from Cons.prems(1) have an: "a \<notin> set (pre @ [s])" and dis: "distinct (pre @ [s])"
    by simp_all
  from Cons.prems(2) obtain d t h where
    d: "lv a = Some d" "d ''temp'' = Some t" "d ''humidity'' = Some h"
    and he: "has_entries lv (pre @ [s])"
    by (simp add: has_entries_Cons) (elim exE conjE)
  from d(1,2) obtain c1 where c1: "random_choice (fst (draws e a)) CHANGES = Inr c1"
    and g1: "generate_random_walk_value (fst (draws e a)) a ''temp'' lv =
       Inr (max (range_min ''temp'') (min (range_max ''temp'') (t + c1)),
            lv(a \<mapsto> d(''temp'' \<mapsto> max (range_min ''temp'') (min (range_max ''temp'') (t + c1)))))"
    by (rule generate_step)
  let ?w1 = "max (range_min ''temp'') (min (range_max ''temp'') (t + c1))"
  let ?d1 = "d(''temp'' \<mapsto> ?w1)"
  let ?lv1 = "lv(a \<mapsto> ?d1)"
  have d1: "?lv1 a = Some ?d1" "?d1 ''humidity'' = Some h" using d(3) by simp_all
  from d1 obtain c2 where c2: "random_choice (snd (draws e a)) CHANGES = Inr c2"
    and g2: "generate_random_walk_value (snd (draws e a)) a ''humidity'' ?lv1 =
       Inr (max (range_min ''humidity'') (min (range_max ''humidity'') (h + c2)),
            ?lv1(a \<mapsto> ?d1(''humidity'' \<mapsto> max (range_min ''humidity'') (min (range_max ''humidity'') (h + c2)))))"
    by (rule generate_step)
  let ?w2 = "max (range_min ''humidity'') (min (range_max ''humidity'') (h + c2))"
  let ?lv2 = "?lv1(a \<mapsto> ?d1(''humidity'' \<mapsto> ?w2))"
  let ?row = "\<lparr>timestamp = ts, sensor_id = a, temperature = ?w1, humidity = ?w2\<rparr>"
  from Cons.prems(3) have ok: "\<not> insert_fault e a" "\<not> key_stored ts a tbl"
    and rest: "\<forall>x \<in> set pre. \<not> insert_fault e x \<and> \<not> key_stored ts x tbl"
    by simp_all
  from ok have i: "execute_insert (insert_fault e a) ?row tbl = Inr (tbl @ [?row])"
    by (simp add: execute_insert_cases)
  have h2: "has_entries ?lv2 (pre @ [s])"
    using generate_preserves_has_entries [OF g2 generate_preserves_has_entries [OF g1 he]] .
  have k: "\<forall>x \<in> set pre. \<not> insert_fault e x \<and> \<not> key_stored ts x (tbl @ [?row])"
  proof
    fix x assume x: "x \<in> set pre"
    with rest have "\<not> insert_fault e x" "\<not> key_stored ts x tbl" by simp_all
    moreover from x an have "a \<noteq> x" by auto
    ultimately show "\<not> insert_fault e x \<and> \<not> key_stored ts x (tbl @ [?row])"
      by (simp add: key_stored_append key_stored_single)
  qed
  from Cons.prems(4) have f: "insert_fault e s \<or> key_stored ts s (tbl @ [?row])"
    by (auto simp: key_stored_append)
  from Cons.IH [OF dis h2 k f] obtain lv' where
    r: "insert_sensors ts e (pre @ s # post) ?lv2 (tbl @ [?row]) =
          (lv', Inl (if insert_fault e s then OperationalError else UniqueConstraintFailed))"
    and fr: "\<forall>x. x \<notin> set (pre @ [s]) \<longrightarrow> lv' x = ?lv2 x"
    and st: "\<forall>x \<in> set (pre @ [s]). \<exists>d t h c1 c2.
            ?lv2 x = Some d \<and> d ''temp'' = Some t \<and> d ''humidity'' = Some h \<and>
            random_choice (fst (draws e x)) CHANGES = Inr c1 \<and>
            random_choice (snd (draws e x)) CHANGES = Inr c2 \<and>
            lv' x = Some (d(''temp'' \<mapsto> max TEMP_MIN (min TEMP_MAX (t + c1)),
                            ''humidity'' \<mapsto> max HUMIDITY_MIN (min HUMIDITY_MAX (h + c2))))"
    by (elim exE conjE)
  from r have a: "insert_sensors ts e ((a # pre) @ s # post) lv tbl =
          (lv', Inl (if insert_fault e s then OperationalError else UniqueConstraintFailed))"
    by (simp only: append_Cons insert_sensors.simps g1 g2 i sum.case prod.case)
  have b: "\<forall>x. x \<notin> set ((a # pre) @ [s]) \<longrightarrow> lv' x = lv x"
  proof (intro allI impI)
    fix x assume x: "x \<notin> set ((a # pre) @ [s])"
    then have "x \<notin> set (pre @ [s])" "x \<noteq> a" by auto
    with fr have "lv' x = ?lv2 x" by simp
    with \<open>x \<noteq> a\<close> show "lv' x = lv x" by simp
  qed
  have c: "\<forall>x \<in> set ((a # pre) @ [s]). \<exists>d t h c1 c2.
            lv x = Some d \<and> d ''temp'' = Some t \<and> d ''humidity'' = Some h \<and>
            random_choice (fst (draws e x)) CHANGES = Inr c1 \<and>
            random_choice (snd (draws e x)) CHANGES = Inr c2 \<and>
            lv' x = Some (d(''temp'' \<mapsto> max TEMP_MIN (min TEMP_MAX (t + c1)),
                            ''humidity'' \<mapsto> max HUMIDITY_MIN (min HUMIDITY_MAX (h + c2))))"
  proof
    fix x assume x: "x \<in> set ((a # pre) @ [s])"
    show "\<exists>d t h c1 c2.
            lv x = Some d \<and> d ''temp'' = Some t \<and> d ''humidity'' = Some h \<and>
            random_choice (fst (draws e x)) CHANGES = Inr c1 \<and>
            random_choice (snd (draws e x)) CHANGES = Inr c2 \<and>
            lv' x = Some (d(''temp'' \<mapsto> max TEMP_MIN (min TEMP_MAX (t + c1)),
                            ''humidity'' \<mapsto> max HUMIDITY_MIN (min HUMIDITY_MAX (h + c2))))"
    proof (cases "x = a")
      case True
      from fr an have "lv' a = ?lv2 a" by simp
      then have e: "lv' a = Some (d(''temp'' \<mapsto> max TEMP_MIN (min TEMP_MAX (t + c1)),
                            ''humidity'' \<mapsto> max HUMIDITY_MIN (min HUMIDITY_MAX (h + c2))))"
        by (simp add: range_min_def range_max_def)
      from d c1 c2 e show ?thesis unfolding True by (intro exI conjI)
    next
      case False
      with x have m: "x \<in> set (pre @ [s])" by simp
      from False have same: "?lv2 x = lv x" by simp
      from st m obtain d' t' h' c1' c2' where
        "?lv2 x = Some d'" "d' ''temp'' = Some t'" "d' ''humidity'' = Some h'"
        "random_choice (fst (draws e x)) CHANGES = Inr c1'"
        "random_choice (snd (draws e x)) CHANGES = Inr c2'"
        "lv' x = Some (d'(''temp'' \<mapsto> max TEMP_MIN (min TEMP_MAX (t' + c1')),
                            ''humidity'' \<mapsto> max HUMIDITY_MIN (min HUMIDITY_MAX (h' + c2'))))"
        by (elim ballE exE conjE) (assumption, simp)
      then show ?thesis unfolding same by (intro exI conjI)
    qed
  qed
  from a b c show ?case by (intro exI conjI)
qed

lemma clean_old_data_stdout:
  "stdout (clean_old_data now fault 60 st) =
     stdout st @
       (if fault then [Error_cleaning OperationalError]
        else if 0 < length (filter (\<lambda>r. timestamp r < now - 3600) (metrics st))
          then [Cleaned_up (length (filter (\<lambda>r. timestamp r < now - 3600) (metrics st)))]
          else [])"
  by (simp add: clean_old_data_def execute_delete_def Let_def)

lemma clean_old_data_table:
  "metrics (clean_old_data now fault 60 st) =
     (if fault then metrics st
      else filter (\<lambda>r. \<not> timestamp r < now - 3600) (metrics st))"
  by (simp add: clean_old_data_def execute_delete_def Let_def)

text \<open>
  C2, as the specification has it: when the insert of one sensor raises, the readings of
  the other sensors of the tick are still stored. The loop over the sensors lies inside
  one \<^verbatim>\<open>try\<close>, and the only \<^verbatim>\<open>commit\<close> follows the loop. With the engine failing from
  the second sensor's insert on, the prune included, the tick stores nothing, the first
  sensor's reading included; with the second sensor's key stored already and no fault
  of the engine, the table is left as it was.
\<close>

theorem failed_insert_loses_other_sensors_counterexample:
  "metrics (generate_and_insert_metric
      \<lparr>time_insert = 1706745600, time_clean = 1706745600, draws = (\<lambda>s. (4, 0)),
       insert_fault = (\<lambda>s. s = ''THS No. 2''), delete_fault = True\<rparr>
      initial_state) = [] \<and>
   metrics (generate_and_insert_metric
      \<lparr>time_insert = 1706745600, time_clean = 1706745600, draws = (\<lambda>s. (4, 0)),
       insert_fault = (\<lambda>s. False), delete_fault = False\<rparr>
      (initial_state\<lparr>metrics :=
         [\<lparr>timestamp = 1706745600, sensor_id = ''THS No. 2'', temperature = 22, humidity = 58\<rparr>]\<rparr>)) =
     [\<lparr>timestamp = 1706745600, sensor_id = ''THS No. 2'', temperature = 22, humidity = 58\<rparr>]"
proof -
  let ?e1 = "\<lparr>time_insert = 1706745600, time_clean = 1706745600, draws = (\<lambda>s. (4 :: nat, 0 :: nat)),
       insert_fault = (\<lambda>s. s = ''THS No. 2''), delete_fault = True\<rparr>"
  let ?e2 = "\<lparr>time_insert = 1706745600, time_clean = 1706745600, draws = (\<lambda>s. (4 :: nat, 0 :: nat)),
       insert_fault = (\<lambda>s. False), delete_fault = False\<rparr>"
  let ?row = "\<lparr>timestamp = 1706745600, sensor_id = ''THS No. 2'', temperature = 22, humidity = 58 :: real\<rparr>"
  let ?st2 = "initial_state\<lparr>metrics := [?row]\<rparr>"
  have m: "''THS No. 2'' \<in> set SENSORS" by (simp add: SENSORS_def)
  have f1: "insert_fault ?e1 ''THS No. 2'' \<or>
              key_stored (time_insert ?e1) ''THS No. 2'' (metrics initial_state)"
    by simp
  have f2: "insert_fault ?e2 ''THS No. 2'' \<or>
              key_stored (time_insert ?e2) ''THS No. 2'' (metrics ?st2)"
    by (simp add: key_stored_def)
  have t1: "metrics (try_insert ?e1 initial_state) = []"
    using failed_try_insert_metrics [OF m f1] by (simp add: initial_state_def)
  have t2: "metrics (try_insert ?e2 ?st2) = [?row]"
    using failed_try_insert_metrics [OF m f2] by simp
  have a: "metrics (generate_and_insert_metric ?e1 initial_state) = []"
    unfolding generate_and_insert_metric_def
    using clean_old_data_keeps(1) [of "try_insert ?e1 initial_state" "time_clean ?e1" "delete_fault ?e1"] t1
    by simp
  have b: "metrics (generate_and_insert_metric ?e2 ?st2) = [?row]"
    unfolding generate_and_insert_metric_def
    using clean_old_data_keeps(1) [of "try_insert ?e2 ?st2" "time_clean ?e2" "delete_fault ?e2"] t2
    by simp
  from a b show ?thesis by (rule conjI)
qed

text \<open>
  C2, amended. Let a sensor be the first of the tick whose insert fails, by a fault of
  the engine or by its key being stored. The loop ends there: the table is left as it
  was before the tick, so no reading of the tick is stored, those inserted before the
  failure included. A fault of the engine is printed, the violation of the key
  constraint is not. The generator has run for the sensors up to the failing one, whose
  entries hold the new values, and for no other: every other entry of the dictionary is
  as before. The tick goes on to the prune, which works on the old table and adds its
  own line to the output.
\<close>

theorem failed_insert_aborts_tick:
  assumes "SENSORS = pre @ s # post"
    and "has_entries (last_values st) SENSORS"
    and "\<forall>x \<in> set pre. \<not> insert_fault e x \<and> \<not> key_stored (time_insert e) x (metrics st)"
    and "insert_fault e s \<or> key_stored (time_insert e) s (metrics st)"
  shows "metrics (try_insert e st) = metrics st \<and>
         stdout (try_insert e st) =
           stdout st @ (if insert_fault e s then [Error_inserting OperationalError] else []) \<and>
         (\<forall>x. x \<notin> set (pre @ [s]) \<longrightarrow> last_values (try_insert e st) x = last_values st x) \<and>
         (\<forall>x \<in> set (pre @ [s]). \<exists>d t h c1 c2.
            last_values st x = Some d \<and> d ''temp'' = Some t \<and> d ''humidity'' = Some h \<and>
            random_choice (fst (draws e x)) CHANGES = Inr c1 \<and>
            random_choice (snd (draws e x)) CHANGES = Inr c2 \<and>
            last_values (try_insert e st) x =
              Some (d(''temp'' \<mapsto> max TEMP_MIN (min TEMP_MAX (t + c1)),
                      ''humidity'' \<mapsto> max HUMIDITY_MIN (min HUMIDITY_MAX (h + c2))))) \<and>
         last_values (generate_and_insert_metric e st) = last_values (try_insert e st) \<and>
         metrics (generate_and_insert_metric e st) =
           (if delete_fault e then metrics st
            else filter (\<lambda>r. \<not> timestamp r < time_clean e - 3600) (metrics st)) \<and>
         stdout (generate_and_insert_metric e st) =
           stdout (try_insert e st) @
             (if delete_fault e then [Error_cleaning OperationalError]
              else if 0 < length (filter (\<lambda>r. timestamp r < time_clean e - 3600) (metrics st))
                then [Cleaned_up (length (filter (\<lambda>r. timestamp r < time_clean e - 3600) (metrics st)))]
                else [])"
proof -
  let ?err = "if insert_fault e s then OperationalError else UniqueConstraintFailed"
  from distinct_SENSORS have dis: "distinct (pre @ [s])"
    unfolding assms(1) by simp
  from assms(2) have he: "has_entries (last_values st) (pre @ [s])"
    unfolding assms(1) by (simp add: has_entries_def)
  from insert_sensors_stops [OF dis he assms(3,4), of post] obtain lv' where
    r: "insert_sensors (time_insert e) e (pre @ s # post) (last_values st) (metrics st) =
          (lv', Inl ?err)"
    and fr: "\<forall>x. x \<notin> set (pre @ [s]) \<longrightarrow> lv' x = last_values st x"
    and gen: "\<forall>x \<in> set (pre @ [s]). \<exists>d t h c1 c2.
            last_values st x = Some d \<and> d ''temp'' = Some t \<and> d ''humidity'' = Some h \<and>
            random_choice (fst (draws e x)) CHANGES = Inr c1 \<and>
            random_choice (snd (draws e x)) CHANGES = Inr c2 \<and>
            lv' x = Some (d(''temp'' \<mapsto> max TEMP_MIN (min TEMP_MAX (t + c1)),
                            ''humidity'' \<mapsto> max HUMIDITY_MIN (min HUMIDITY_MAX (h + c2))))"
    by (elim exE conjE)
  from r have r': "insert_sensors (time_insert e) e SENSORS (last_values st) (metrics st) =
          (lv', Inl ?err)"
    unfolding assms(1) .
  note t = try_insert_Inl [OF r']
  have lv: "last_values (try_insert e st) = lv'" unfolding t by simp
  have a: "metrics (try_insert e st) = metrics st" unfolding t by simp
  have b: "stdout (try_insert e st) =
           stdout st @ (if insert_fault e s then [Error_inserting OperationalError] else [])"
    unfolding t by simp
  from fr have c: "\<forall>x. x \<notin> set (pre @ [s]) \<longrightarrow> last_values (try_insert e st) x = last_values st x"
    unfolding lv .
  from gen have d: "\<forall>x \<in> set (pre @ [s]). \<exists>d t h c1 c2.
            last_values st x = Some d \<and> d ''temp'' = Some t \<and> d ''humidity'' = Some h \<and>
            random_choice (fst (draws e x)) CHANGES = Inr c1 \<and>
            random_choice (snd (draws e x)) CHANGES = Inr c2 \<and>
            last_values (try_insert e st) x =
              Some (d(''temp'' \<mapsto> max TEMP_MIN (min TEMP_MAX (t + c1)),
                      ''humidity'' \<mapsto> max HUMIDITY_MIN (min HUMIDITY_MAX (h + c2))))"
    unfolding lv .
  have f: "last_values (generate_and_insert_metric e st) = last_values (try_insert e st)"
    unfolding generate_and_insert_metric_def by (rule clean_old_data_last_values)
  have g: "metrics (generate_and_insert_metric e st) =
           (if delete_fault e then metrics st
            else filter (\<lambda>r. \<not> timestamp r < time_clean e - 3600) (metrics st))"
    unfolding generate_and_insert_metric_def clean_old_data_table a ..
  have h: "stdout (generate_and_insert_metric e st) =
           stdout (try_insert e st) @
             (if delete_fault e then [Error_cleaning OperationalError]
              else if 0 < length (filter (\<lambda>r. timestamp r < time_clean e - 3600) (metrics st))
                then [Cleaned_up (length (filter (\<lambda>r. timestamp r < time_clean e - 3600) (metrics st)))]
                else [])"
    unfolding generate_and_insert_metric_def clean_old_data_stdout a ..
  from a b c d f g h show ?thesis by (intro conjI)
qed

theorem failed_insert_aborts_tick_witness:
  "metrics (try_insert
      \<lparr>time_insert = 1706745600, time_clean = 1706745600, draws = (\<lambda>s. (4, 0)),
       insert_fault = (\<lambda>s. s = ''THS No. 2''), delete_fault = True\<rparr> initial_state) = [] \<and>
   stdout (try_insert
      \<lparr>time_insert = 1706745600, time_clean = 1706745600, draws = (\<lambda>s. (4, 0)),
       insert_fault = (\<lambda>s. s = ''THS No. 2''), delete_fault = True\<rparr> initial_state) =
     [Error_inserting OperationalError] \<and>
   last_values (try_insert
      \<lparr>time_insert = 1706745600, time_clean = 1706745600, draws = (\<lambda>s. (4, 0)),
       insert_fault = (\<lambda>s. s = ''THS No. 2''), delete_fault = True\<rparr> initial_state) ''THS No. 3'' =
     LAST_VALUES ''THS No. 3'' \<and>
   metrics (generate_and_insert_metric
      \<lparr>time_insert = 1706745600, time_clean = 1706745600, draws = (\<lambda>s. (4, 0)),
       insert_fault = (\<lambda>s. s = ''THS No. 2''), delete_fault = True\<rparr> initial_state) = []"
proof -
  let ?e = "\<lparr>time_insert = 1706745600, time_clean = 1706745600, draws = (\<lambda>s. (4 :: nat, 0 :: nat)),
       insert_fault = (\<lambda>s. s = ''THS No. 2''), delete_fault = True\<rparr>"
  have h1: "SENSORS = [''THS No. 1''] @ ''THS No. 2'' # [''THS No. 3'']"
    by (simp add: SENSORS_def)
  have h2: "has_entries (last_values initial_state) SENSORS"
    by (simp add: initial_state_def has_entries_LAST_VALUES)
  have h3: "\<forall>x \<in> set [''THS No. 1'']. \<not> insert_fault ?e x \<and>
              \<not> key_stored (time_insert ?e) x (metrics initial_state)"
    by (simp add: initial_state_def key_stored_def)
  have h4: "insert_fault ?e ''THS No. 2'' \<or>
              key_stored (time_insert ?e) ''THS No. 2'' (metrics initial_state)"
    by simp
  note w = failed_insert_aborts_tick [OF h1 h2 h3 h4]
  from w have "metrics (try_insert ?e initial_state) = metrics initial_state"
    by (elim conjE)
  then have a: "metrics (try_insert ?e initial_state) = []"
    by (simp add: initial_state_def)
  from w have "stdout (try_insert ?e initial_state) =
      stdout initial_state @
        (if insert_fault ?e ''THS No. 2'' then [Error_inserting OperationalError] else [])"
    by (elim conjE)
  then have b: "stdout (try_insert ?e initial_state) = [Error_inserting OperationalError]"
    by (simp add: initial_state_def)
  from w have "\<forall>x. x \<notin> set ([''THS No. 1''] @ [''THS No. 2'']) \<longrightarrow>
      last_values (try_insert ?e initial_state) x = last_values initial_state x"
    by (elim conjE)
  then have "last_values (try_insert ?e initial_state) ''THS No. 3'' =
      last_values initial_state ''THS No. 3''"
    by simp
  then have c: "last_values (try_insert ?e initial_state) ''THS No. 3'' = LAST_VALUES ''THS No. 3''"
    by (simp add: initial_state_def)
  from w have "metrics (generate_and_insert_metric ?e initial_state) =
           (if delete_fault ?e then metrics initial_state
            else filter (\<lambda>r. \<not> timestamp r < time_clean ?e - 3600) (metrics initial_state))"
    by (elim conjE)
  then have d: "metrics (generate_and_insert_metric ?e initial_state) = []"
    by (simp add: initial_state_def)
  from a b c d show ?thesis by (intro conjI)
qed

end
